theory Spec2Isabelle
  imports Complex_Main
begin

section \<open>Python strings\<close>

text \<open>
  The six parsers work on Python \<open>str\<close> values obtained from the text-extraction step.
  A character of the model is one code point in the range 0..255; a string is a list of
  them. The character classes below are Python's for that range.
\<close>

definition is_digit :: "char \<Rightarrow> bool" where
  \<comment> \<open>\<open>\d\<close> of a \<open>str\<close> pattern, and \<open>str.isdigit\<close>: the decimal digits.\<close>
  "is_digit c = (let n = (of_char c :: nat) in 48 \<le> n \<and> n \<le> 57)"

definition is_space :: "char \<Rightarrow> bool" where
  \<comment> \<open>\<open>\s\<close> of a \<open>str\<close> pattern, and \<open>str.isspace\<close>: tab, LF, VT, FF, CR, the four
      separators FS GS RS US, the blank, NEL and the no-break space.\<close>
  "is_space c = (let n = (of_char c :: nat) in
      (9 \<le> n \<and> n \<le> 13) \<or> (28 \<le> n \<and> n \<le> 32) \<or> n = 133 \<or> n = 160)"

definition is_upper :: "char \<Rightarrow> bool" where
  \<comment> \<open>the class \<open>[A-Z]\<close>\<close>
  "is_upper c = (let n = (of_char c :: nat) in 65 \<le> n \<and> n \<le> 90)"

definition is_lower :: "char \<Rightarrow> bool" where
  \<comment> \<open>the class \<open>[a-z]\<close>\<close>
  "is_lower c = (let n = (of_char c :: nat) in 97 \<le> n \<and> n \<le> 122)"

definition is_numeric_char :: "char \<Rightarrow> bool" where
  \<comment> \<open>the characters \<open>str.isnumeric\<close> accepts: the digits, the superscripts 2, 3, 1 and
      the fractions 1/4, 1/2, 3/4.\<close>
  "is_numeric_char c = (let n = (of_char c :: nat) in
      (48 \<le> n \<and> n \<le> 57) \<or> n = 178 \<or> n = 179 \<or> n = 185 \<or> n = 188 \<or> n = 189 \<or> n = 190)"

definition to_lower :: "char \<Rightarrow> char" where
  "to_lower c = (if is_upper c then char_of ((of_char c :: nat) + 32) else c)"

definition strip :: "string \<Rightarrow> string" where
  \<comment> \<open>\<open>s.strip()\<close>\<close>
  "strip s = rev (dropWhile is_space (rev (dropWhile is_space s)))"

definition zfill :: "nat \<Rightarrow> string \<Rightarrow> string" where
  \<comment> \<open>\<open>s.zfill(n)\<close> for a string with no sign, which is all the parsers pass.\<close>
  "zfill n s = replicate (n - length s) (CHR ''0'') @ s"

definition remove_commas :: "string \<Rightarrow> string" where
  \<comment> \<open>\<open>s.replace(",", "")\<close>\<close>
  "remove_commas s = filter (\<lambda>c. c \<noteq> CHR '','') s"

fun starts_with :: "string \<Rightarrow> string \<Rightarrow> bool" where
  \<comment> \<open>\<open>s.startswith(pre)\<close>, written \<open>starts_with pre s\<close>\<close>
  "starts_with [] s = True"
| "starts_with (p # ps) [] = False"
| "starts_with (p # ps) (c # cs) = (p = c \<and> starts_with ps cs)"

fun str_in :: "string \<Rightarrow> string \<Rightarrow> bool" where
  \<comment> \<open>\<open>sub in s\<close>\<close>
  "str_in sub [] = (sub = [])"
| "str_in sub (c # cs) = (starts_with sub (c # cs) \<or> str_in sub cs)"

fun rfind :: "string \<Rightarrow> string \<Rightarrow> int" where
  \<comment> \<open>\<open>s.rfind(sub)\<close>, written \<open>rfind sub s\<close>: the highest index at which \<open>sub\<close> starts, or -1.\<close>
  "rfind sub [] = (if sub = [] then 0 else -1)"
| "rfind sub (c # cs) =
     (let r = rfind sub cs
      in if 0 \<le> r then r + 1 else if starts_with sub (c # cs) then 0 else -1)"

definition slice_to :: "string \<Rightarrow> int \<Rightarrow> string" where
  \<comment> \<open>\<open>s[:k]\<close>; a negative \<open>k\<close> counts from the end.\<close>
  "slice_to s k = (if k < 0 then take (length s - nat (- k)) s else take (nat k) s)"

fun join :: "string \<Rightarrow> string list \<Rightarrow> string" where
  \<comment> \<open>\<open>sep.join(parts)\<close>\<close>
  "join sep [] = []"
| "join sep [x] = x"
| "join sep (x # y # ys) = x @ sep @ join sep (y # ys)"

definition isnumeric :: "string \<Rightarrow> bool" where
  \<comment> \<open>\<open>s.isnumeric()\<close>\<close>
  "isnumeric s = (s \<noteq> [] \<and> list_all is_numeric_char s)"

function split_on :: "string \<Rightarrow> string \<Rightarrow> string \<Rightarrow> string list" where
  \<comment> \<open>\<open>s.split(sep)\<close> for a non-empty \<open>sep\<close>, written \<open>split_on sep [] s\<close>; the second
      argument holds the characters of the current piece.\<close>
  "split_on sep cur [] = [cur]"
| "split_on sep cur (c # cs) =
     (if sep \<noteq> [] \<and> starts_with sep (c # cs)
      then cur # split_on sep [] (drop (length sep) (c # cs))
      else split_on sep (cur @ [c]) cs)"
  by pat_completeness auto
termination
  by (relation "measure (\<lambda>(sep, cur, s). length s)") auto

section \<open>Numbers\<close>

text \<open>
  An amount is a Python \<open>float\<close> (or the \<open>int\<close> 0). The model keeps the exact decimal
  value of the text as a rational: rounding to binary floating point is not modelled. The
  sign of an amount and whether it is zero are the same in both.
\<close>

type_synonym amount = rat

definition digit_val :: "char \<Rightarrow> nat" where
  "digit_val c = (of_char c :: nat) - 48"

definition nat_of_digits :: "string \<Rightarrow> nat" where
  \<comment> \<open>\<open>int(s)\<close> for a string of decimal digits\<close>
  "nat_of_digits s = foldl (\<lambda>acc c. 10 * acc + digit_val c) 0 s"

definition amount_of_digits :: "string \<Rightarrow> amount" where
  \<comment> \<open>the number a string of decimal digits stands for, as an amount\<close>
  "amount_of_digits s = foldl (\<lambda>acc c. 10 * acc + of_nat (digit_val c)) 0 s"

definition unsigned_float :: "string \<Rightarrow> amount option" where
  \<comment> \<open>digits with at most one point and at least one digit\<close>
  "unsigned_float s =
     (let ip = takeWhile is_digit s; r = dropWhile is_digit s
      in case r of
           [] \<Rightarrow> (if ip = [] then None else Some (amount_of_digits ip))
         | c # fp \<Rightarrow>
             (if c = CHR ''.'' \<and> list_all is_digit fp \<and> (ip \<noteq> [] \<or> fp \<noteq> [])
              then Some (amount_of_digits (ip @ fp) / 10 ^ length fp)
              else None))"

definition py_float :: "string \<Rightarrow> amount option" where
  \<comment> \<open>\<open>float(s)\<close>; \<open>None\<close> is \<open>ValueError\<close>. The strings the parsers convert are made of
      digits, points and a leading minus sign only (the commas are removed first), and on
      those this is Python's \<open>float\<close>: exponents, \<open>inf\<close>, \<open>nan\<close>, underscores and
      surrounding blanks cannot occur.\<close>
  "py_float s =
     (case s of
        [] \<Rightarrow> None
      | c # t \<Rightarrow>
          (if c = CHR ''-'' then map_option uminus (unsigned_float t)
           else if c = CHR ''+'' then unsigned_float t
           else unsigned_float s))"

section \<open>Regular expressions\<close>

text \<open>
  The patterns of the parsers are values of the type \<open>re\<close>, and \<open>mtch\<close> is a backtracking
  matcher in the order of Python's \<open>re\<close> module: it returns every way the pattern can match
  at a position, the way Python tries first at the head of the list. A state is the
  position, the text that remains and the groups captured so far (latest first).
\<close>

datatype cls =
    Digit                 \<comment> \<open>\<open>\d\<close>\<close>
  | Space                 \<comment> \<open>\<open>\s\<close>\<close>
  | Alpha                 \<comment> \<open>\<open>[A-Za-z]\<close>\<close>
  | Upper                 \<comment> \<open>\<open>[A-Z]\<close>\<close>
  | Dot                   \<comment> \<open>\<open>.\<close>: anything but a line feed\<close>
  | Lit char              \<comment> \<open>a literal character\<close>
  | Rng char char         \<comment> \<open>a range \<open>[a-b]\<close>\<close>
  | LitI char             \<comment> \<open>a literal letter under \<open>re.IGNORECASE\<close>, given in lower case\<close>
  | OneOf "cls list"      \<comment> \<open>a set \<open>[...]\<close>\<close>

fun cls_ok :: "cls \<Rightarrow> char \<Rightarrow> bool" where
  "cls_ok Digit c = is_digit c"
| "cls_ok Space c = is_space c"
| "cls_ok Alpha c = (is_upper c \<or> is_lower c)"
| "cls_ok Upper c = is_upper c"
| "cls_ok Dot c = (c \<noteq> CHR 0x0A)"
| "cls_ok (Lit x) c = (c = x)"
| "cls_ok (Rng a b) c = ((of_char a :: nat) \<le> of_char c \<and> (of_char c :: nat) \<le> of_char b)"
| "cls_ok (LitI x) c = (to_lower c = x)"
| "cls_ok (OneOf ks) c = list_ex (\<lambda>k. cls_ok k c) ks"

datatype re =
    Bol                            \<comment> \<open>\<open>^\<close>\<close>
  | Eol                            \<comment> \<open>\<open>$\<close>\<close>
  | Chr cls                        \<comment> \<open>one character of a class\<close>
  | Seq re re                      \<comment> \<open>concatenation\<close>
  | Alt re re                      \<comment> \<open>\<open>a|b\<close>\<close>
  | Rep bool nat "nat option" re   \<comment> \<open>repetition: greedy?, least, most (\<open>None\<close>: unbounded)\<close>
  | Grp nat re                     \<comment> \<open>capturing group number n\<close>

type_synonym caps = "(nat \<times> string) list"
type_synonym mstate = "nat \<times> string \<times> caps"

fun iter :: "(mstate \<Rightarrow> mstate list) \<Rightarrow> bool \<Rightarrow> nat \<Rightarrow> nat option \<Rightarrow> nat \<Rightarrow> mstate \<Rightarrow> mstate list" where
  \<comment> \<open>The repetition of a body \<open>f\<close>. Every body repeated in the parsers' patterns consumes at
      least one character, so the number of rounds is bounded by the length of the remaining
      text, which is the fifth argument.\<close>
  "iter f g lo hi 0 s = (if lo = 0 then [s] else [])"
| "iter f g lo hi (Suc n) s =
     (let stop = (if lo = 0 then [s] else []);
          more = (if hi = Some 0 then []
                  else concat (map (iter f g (lo - 1) (map_option (\<lambda>h. h - 1) hi) n)
                                   (filter (\<lambda>t. fst s < fst t) (f s))))
      in if g then more @ stop else stop @ more)"

fun mtch :: "re \<Rightarrow> mstate \<Rightarrow> mstate list" where
  "mtch Bol (p, r, c) = (if p = 0 then [(p, r, c)] else [])"
| "mtch Eol (p, r, c) = (if r = [] \<or> r = [CHR 0x0A] then [(p, r, c)] else [])"
| "mtch (Chr k) (p, r, c) =
     (case r of [] \<Rightarrow> [] | x # xs \<Rightarrow> if cls_ok k x then [(Suc p, xs, c)] else [])"
| "mtch (Seq a b) s = concat (map (mtch b) (mtch a s))"
| "mtch (Alt a b) s = mtch a s @ mtch b s"
| "mtch (Rep g lo hi a) (p, r, c) = iter (mtch a) g lo hi (length r) (p, r, c)"
| "mtch (Grp i a) (p, r, c) =
     map (\<lambda>(p', r', c'). (p', r', (i, take (p' - p) r) # c')) (mtch a (p, r, c))"

definition seq :: "re list \<Rightarrow> re" where
  \<comment> \<open>the concatenation of several patterns\<close>
  "seq rs = foldr Seq (butlast rs) (last rs)"

definition lit :: "string \<Rightarrow> re" where
  \<comment> \<open>a literal word\<close>
  "lit w = seq (map (\<lambda>c. Chr (Lit c)) w)"

definition alts :: "re list \<Rightarrow> re" where
  \<comment> \<open>\<open>a|b|c\<close>\<close>
  "alts rs = foldr Alt (butlast rs) (last rs)"

abbreviation star :: "cls \<Rightarrow> re" where "star k \<equiv> Rep True 0 None (Chr k)"       \<comment> \<open>\<open>k*\<close>\<close>
abbreviation plus :: "cls \<Rightarrow> re" where "plus k \<equiv> Rep True 1 None (Chr k)"       \<comment> \<open>\<open>k+\<close>\<close>
abbreviation opt :: "re \<Rightarrow> re" where "opt a \<equiv> Rep True 0 (Some 1) a"             \<comment> \<open>\<open>a?\<close>\<close>
abbreviation times :: "nat \<Rightarrow> nat \<Rightarrow> cls \<Rightarrow> re" where
  "times lo hi k \<equiv> Rep True lo (Some hi) (Chr k)"                                \<comment> \<open>\<open>k{lo,hi}\<close>\<close>

record match =
  m_start :: nat
  m_end :: nat
  m_text :: string
  m_caps :: caps

definition re_match :: "re \<Rightarrow> string \<Rightarrow> match option" where
  \<comment> \<open>\<open>pattern.match(s)\<close>: the first way the pattern matches at position 0\<close>
  "re_match r s =
     (case mtch r (0, s, []) of
        [] \<Rightarrow> None
      | (e, _, c) # _ \<Rightarrow> Some \<lparr>m_start = 0, m_end = e, m_text = take e s, m_caps = c\<rparr>)"

function finditer_from :: "re \<Rightarrow> nat \<Rightarrow> string \<Rightarrow> match list" where
  \<comment> \<open>\<open>pattern.finditer(s)\<close>: the matches from left to right, each search starting where
      the last match ended. No pattern of the parsers matches the empty string; after an
      empty match the search would move on by one character.\<close>
  "finditer_from r p s =
     (case mtch r (p, s, []) of
        [] \<Rightarrow> (case s of [] \<Rightarrow> [] | _ # t \<Rightarrow> finditer_from r (Suc p) t)
      | (e, _, c) # _ \<Rightarrow>
          \<lparr>m_start = p, m_end = e, m_text = take (e - p) s, m_caps = c\<rparr> #
          (if s = [] then [] else finditer_from r (p + max 1 (e - p)) (drop (max 1 (e - p)) s)))"
  by pat_completeness auto
termination
  by (relation "measure (\<lambda>(r, p, s). length s)") auto

declare finditer_from.simps [simp del]

definition finditer :: "re \<Rightarrow> string \<Rightarrow> match list" where
  "finditer r s = finditer_from r 0 s"

definition findall :: "re \<Rightarrow> string \<Rightarrow> string list" where
  \<comment> \<open>\<open>pattern.findall(s)\<close> for a pattern with no group, or with one group around the
      whole pattern: the matched texts\<close>
  "findall r s = map m_text (finditer r s)"

definition re_search :: "re \<Rightarrow> string \<Rightarrow> match option" where
  \<comment> \<open>\<open>pattern.search(s)\<close>: the leftmost match\<close>
  "re_search r s = (case finditer r s of [] \<Rightarrow> None | m # _ \<Rightarrow> Some m)"

definition group :: "match \<Rightarrow> nat \<Rightarrow> string option" where
  \<comment> \<open>\<open>m.group(n)\<close>; \<open>None\<close> when the group took no part in the match\<close>
  "group m n = map_of (m_caps m) n"

definition group_str :: "match \<Rightarrow> nat \<Rightarrow> string" where
  \<comment> \<open>\<open>m.group(n)\<close> for a group that is in every match of its pattern (a group that is
      not under \<open>?\<close> or \<open>|\<close>)\<close>
  "group_str m n = (case group m n of None \<Rightarrow> [] | Some g \<Rightarrow> g)"

definition match_end :: "match \<Rightarrow> nat" where
  \<comment> \<open>\<open>m.end()\<close>\<close>
  "match_end m = m_end m"

section \<open>Dates\<close>

text \<open>
  \<open>datetime.strptime\<close> turns its format into a regular expression (under
  \<open>re.IGNORECASE\<close>), matches it at the start of the text, refuses text that is left over,
  and builds the date, which refuses a day the month does not have. The directives the
  parsers use are modelled with their expressions from Python's \<open>_strptime\<close>, in the
  English locale.
\<close>

definition leap_year :: "nat \<Rightarrow> bool" where
  "leap_year y = (y mod 4 = 0 \<and> (y mod 100 \<noteq> 0 \<or> y mod 400 = 0))"

definition days_in_month :: "nat \<Rightarrow> nat \<Rightarrow> nat" where
  "days_in_month y m =
     (if m = 2 then (if leap_year y then 29 else 28)
      else if m = 4 \<or> m = 6 \<or> m = 9 \<or> m = 11 then 30 else 31)"

definition valid_date :: "nat \<Rightarrow> nat \<Rightarrow> nat \<Rightarrow> bool" where
  \<comment> \<open>the dates \<open>datetime(y, m, d)\<close> accepts\<close>
  "valid_date y m d =
     (1 \<le> y \<and> y \<le> 9999 \<and> 1 \<le> m \<and> m \<le> 12 \<and> 1 \<le> d \<and> d \<le> days_in_month y m)"

definition mk_date :: "nat \<Rightarrow> nat \<Rightarrow> nat \<Rightarrow> (nat \<times> nat \<times> nat) option" where
  \<comment> \<open>\<open>datetime(y, m, d)\<close>; \<open>None\<close> is \<open>ValueError\<close>\<close>
  "mk_date y m d = (if valid_date y m d then Some (y, m, d) else None)"

definition dir_d :: re where
  \<comment> \<open>\<open>%d\<close>: \<open>(?P<d>3[0-1]|[1-2]\d|0[1-9]|[1-9]| [1-9])\<close>, group 1\<close>
  "dir_d = Grp 1 (alts
     [seq [Chr (Lit (CHR ''3'')), Chr (Rng (CHR ''0'') (CHR ''1''))],
      seq [Chr (Rng (CHR ''1'') (CHR ''2'')), Chr Digit],
      seq [Chr (Lit (CHR ''0'')), Chr (Rng (CHR ''1'') (CHR ''9''))],
      Chr (Rng (CHR ''1'') (CHR ''9'')),
      seq [Chr (Lit (CHR '' '')), Chr (Rng (CHR ''1'') (CHR ''9''))]])"

definition dir_m :: re where
  \<comment> \<open>\<open>%m\<close>: \<open>(?P<m>1[0-2]|0[1-9]|[1-9])\<close>, group 2\<close>
  "dir_m = Grp 2 (alts
     [seq [Chr (Lit (CHR ''1'')), Chr (Rng (CHR ''0'') (CHR ''2''))],
      seq [Chr (Lit (CHR ''0'')), Chr (Rng (CHR ''1'') (CHR ''9''))],
      Chr (Rng (CHR ''1'') (CHR ''9''))])"

definition dir_y :: re where
  \<comment> \<open>\<open>%y\<close>: \<open>(?P<y>\d\d)\<close>, group 3\<close>
  "dir_y = Grp 3 (seq [Chr Digit, Chr Digit])"

definition dir_Y :: re where
  \<comment> \<open>\<open>%Y\<close>: \<open>(?P<Y>\d\d\d\d)\<close>, group 3\<close>
  "dir_Y = Grp 3 (seq [Chr Digit, Chr Digit, Chr Digit, Chr Digit])"

definition month_abbrs :: "string list" where
  "month_abbrs = [''jan'', ''feb'', ''mar'', ''apr'', ''may'', ''jun'',
                  ''jul'', ''aug'', ''sep'', ''oct'', ''nov'', ''dec'']"

definition dir_b :: re where
  \<comment> \<open>\<open>%b\<close>: \<open>(?P<b>jan|feb|...|dec)\<close>, group 2\<close>
  "dir_b = Grp 2 (alts (map (\<lambda>w. seq (map (\<lambda>c. Chr (LitI c)) w)) month_abbrs))"

fun index_of :: "'a \<Rightarrow> 'a list \<Rightarrow> nat" where
  \<comment> \<open>\<open>xs.index(x)\<close> for an \<open>x\<close> that is in the list\<close>
  "index_of x [] = 0"
| "index_of x (y # ys) = (if x = y then 0 else Suc (index_of x ys))"

definition strptime_match :: "re \<Rightarrow> string \<Rightarrow> match option" where
  \<comment> \<open>the match of the format's expression, refused when text is left over\<close>
  "strptime_match fmt s =
     (case re_match fmt s of
        None \<Rightarrow> None
      | Some m \<Rightarrow> if match_end m \<noteq> length s then None else Some m)"

definition two_digit_year :: "nat \<Rightarrow> nat" where
  \<comment> \<open>\<open>%y\<close>: 00..68 are 2000..2068, 69..99 are 1969..1999\<close>
  "two_digit_year y = (if y \<le> 68 then y + 2000 else y + 1900)"

definition strptime_Ymd :: "string \<Rightarrow> (nat \<times> nat \<times> nat) option" where
  \<comment> \<open>\<open>datetime.strptime(s, "%Y-%m-%d")\<close>\<close>
  "strptime_Ymd s =
     (case strptime_match (seq [dir_Y, Chr (Lit (CHR ''-'')), dir_m, Chr (Lit (CHR ''-'')), dir_d]) s of
        None \<Rightarrow> None
      | Some m \<Rightarrow> mk_date (nat_of_digits (group_str m 3)) (nat_of_digits (group_str m 2))
                          (nat_of_digits (strip (group_str m 1))))"

definition strptime_dby :: "string \<Rightarrow> (nat \<times> nat \<times> nat) option" where
  \<comment> \<open>\<open>datetime.strptime(s, "%d %b %y")\<close>; a blank of the format is \<open>\s+\<close>\<close>
  "strptime_dby s =
     (case strptime_match (seq [dir_d, plus Space, dir_b, plus Space, dir_y]) s of
        None \<Rightarrow> None
      | Some m \<Rightarrow> mk_date (two_digit_year (nat_of_digits (group_str m 3)))
                          (Suc (index_of (map to_lower (group_str m 2)) month_abbrs))
                          (nat_of_digits (strip (group_str m 1))))"

definition strptime_dmy :: "string \<Rightarrow> (nat \<times> nat \<times> nat) option" where
  \<comment> \<open>\<open>datetime.strptime(s, "%d/%m/%y")\<close>\<close>
  "strptime_dmy s =
     (case strptime_match (seq [dir_d, Chr (Lit (CHR ''/'')), dir_m, Chr (Lit (CHR ''/'')), dir_y]) s of
        None \<Rightarrow> None
      | Some m \<Rightarrow> mk_date (two_digit_year (nat_of_digits (group_str m 3)))
                          (nat_of_digits (group_str m 2))
                          (nat_of_digits (strip (group_str m 1))))"

definition strptime_dmY :: "string \<Rightarrow> (nat \<times> nat \<times> nat) option" where
  \<comment> \<open>\<open>datetime.strptime(s, "%d/%m/%Y")\<close>\<close>
  "strptime_dmY s =
     (case strptime_match (seq [dir_d, Chr (Lit (CHR ''/'')), dir_m, Chr (Lit (CHR ''/'')), dir_Y]) s of
        None \<Rightarrow> None
      | Some m \<Rightarrow> mk_date (nat_of_digits (group_str m 3)) (nat_of_digits (group_str m 2))
                          (nat_of_digits (strip (group_str m 1))))"

definition digit_char :: "nat \<Rightarrow> char" where
  "digit_char n = char_of (48 + n mod 10)"

definition pad2 :: "nat \<Rightarrow> string" where
  \<comment> \<open>two decimal digits\<close>
  "pad2 n = [digit_char (n div 10), digit_char n]"

definition pad4 :: "nat \<Rightarrow> string" where
  \<comment> \<open>four decimal digits\<close>
  "pad4 n = pad2 (n div 100) @ pad2 (n mod 100)"

definition strftime_Ymd :: "nat \<times> nat \<times> nat \<Rightarrow> string" where
  \<comment> \<open>\<open>d.strftime("%Y-%m-%d")\<close>, the year written with four digits\<close>
  "strftime_Ymd dt = (case dt of (y, m, d) \<Rightarrow> pad4 y @ ''-'' @ pad2 m @ ''-'' @ pad2 d)"

definition is_iso_date :: "string \<Rightarrow> bool" where
  \<comment> \<open>a text of the form YYYY-MM-DD that names a day of the calendar\<close>
  "is_iso_date s =
     (length s = 10 \<and> s ! 4 = CHR ''-'' \<and> s ! 7 = CHR ''-'' \<and>
      list_all is_digit (take 4 s) \<and> list_all is_digit (take 2 (drop 5 s)) \<and>
      list_all is_digit (drop 8 s) \<and>
      valid_date (nat_of_digits (take 4 s)) (nat_of_digits (take 2 (drop 5 s)))
                 (nat_of_digits (drop 8 s)))"

section \<open>Transactions\<close>

datatype error = ValueError | KeyError | IndexError

record transaction =
  tid :: string
  date :: string
  description :: string
  amount :: amount

type_synonym row = "string \<times> string \<times> amount"

definition append_txn :: "(nat \<Rightarrow> string) \<Rightarrow> transaction list \<Rightarrow> row \<Rightarrow> transaction list" where
  \<comment> \<open>\<open>transactions.append({"id": str(uuid.uuid4()), "date": ..., "description": ...,
      "amount": ...})\<close>. The identifiers are the successive results of \<open>uuid4\<close>, which is
      called once for each transaction appended and nowhere else: \<open>uuid k\<close> is the result
      of call number \<open>k\<close>.\<close>
  "append_txn uuid ts r =
     (case r of (d, desc, a) \<Rightarrow>
        ts @ [\<lparr>tid = uuid (length ts), date = d, description = desc, amount = a\<rparr>])"

fun scan_lines ::
  "('a \<Rightarrow> error + row option) \<Rightarrow> (nat \<Rightarrow> string) \<Rightarrow> 'a list \<Rightarrow> transaction list
     \<Rightarrow> error + transaction list" where
  \<comment> \<open>\<open>for line in lines: ...\<close> with a body that appends a transaction, goes on to the next
      line (\<open>None\<close>), or raises\<close>
  "scan_lines body uuid [] ts = Inr ts"
| "scan_lines body uuid (line # lines) ts =
     (case body line of
        Inl e \<Rightarrow> Inl e
      | Inr None \<Rightarrow> scan_lines body uuid lines ts
      | Inr (Some r) \<Rightarrow> scan_lines body uuid lines (append_txn uuid ts r))"

definition truthy :: "string option \<Rightarrow> string option" where
  \<comment> \<open>\<open>if g:\<close> for a group \<open>g\<close>: \<open>None\<close> and the empty string are false\<close>
  "truthy g = (case g of None \<Rightarrow> None | Some s \<Rightarrow> if s = [] then None else Some s)"

section \<open>The generic parser (local.py)\<close>

definition year_fallback :: string where
  "year_fallback = ''2023''"

definition money :: cls where
  \<comment> \<open>\<open>[\d,.]\<close>\<close>
  "money = OneOf [Digit, Lit (CHR '',''), Lit (CHR ''.'')]"

definition local_date_pattern :: re where
  \<comment> \<open>\<open>^(\d{1,2})\s+([A-Za-z]{3})\s+([A-Z]{2})\s+(.*?)\s+([\d,.]+)?\s*([\d,.]+)?\s*([\d,.]+)?\s*$\<close>\<close>
  "local_date_pattern = seq
     [Bol, Grp 1 (times 1 2 Digit), plus Space,
      Grp 2 (times 3 3 Alpha), plus Space,
      Grp 3 (times 2 2 Upper), plus Space,
      Grp 4 (Rep False 0 None (Chr Dot)), plus Space,
      opt (Grp 5 (plus money)), star Space,
      opt (Grp 6 (plus money)), star Space,
      opt (Grp 7 (plus money)), star Space, Eol]"

definition local_fallback_pattern :: re where
  \<comment> \<open>\<open>^(\d{1,2})\s+([A-Za-z]{3})\s+(.*?)\s+([\d,.]+)\s*$\<close>\<close>
  "local_fallback_pattern = seq
     [Bol, Grp 1 (times 1 2 Digit), plus Space,
      Grp 2 (times 3 3 Alpha), plus Space,
      Grp 3 (Rep False 0 None (Chr Dot)), plus Space,
      Grp 4 (plus money), star Space, Eol]"

definition month_map :: "string \<Rightarrow> string option" where
  "month_map = map_of
     [(''Jan'', ''01''), (''Feb'', ''02''), (''Mar'', ''03''), (''Apr'', ''04''),
      (''May'', ''05''), (''Jun'', ''06''), (''Jul'', ''07''), (''Aug'', ''08''),
      (''Sep'', ''09''), (''Oct'', ''10''), (''Nov'', ''11''), (''Dec'', ''12'')]"

definition get_or :: "(string \<Rightarrow> string option) \<Rightarrow> string \<Rightarrow> string \<Rightarrow> string" where
  \<comment> \<open>\<open>d.get(k, default)\<close>\<close>
  "get_or d k dflt = (case d k of None \<Rightarrow> dflt | Some v \<Rightarrow> v)"

definition local_date :: "string \<Rightarrow> string \<Rightarrow> string option" where
  \<comment> \<open>the date of a line from its day and month groups; \<open>None\<close> when \<open>strptime\<close> raises\<close>
  "local_date g_day g_month =
     (let day = zfill 2 g_day;
          month = get_or month_map g_month ''01'';
          date_str = year_fallback @ ''-'' @ month @ ''-'' @ day
      in map_option strftime_Ymd (strptime_Ymd date_str))"

definition local_primary_line :: "string \<Rightarrow> error + row option" where
  \<comment> \<open>the body of the primary loop\<close>
  "local_primary_line line =
     (case re_match local_date_pattern (strip line) of
        None \<Rightarrow> Inr None
      | Some m \<Rightarrow>
          (case local_date (group_str m 1) (group_str m 2) of
             None \<Rightarrow> Inr None
           | Some parsed_date \<Rightarrow>
               (let description = strip (group_str m 4);
                    money_out = group m 5;
                    money_in = group m 6
                in case truthy money_out of
                     Some out \<Rightarrow>
                       (case py_float (remove_commas out) of
                          None \<Rightarrow> Inl ValueError
                        | Some v \<Rightarrow> Inr (Some (parsed_date, description, - v)))
                   | None \<Rightarrow>
                       (case truthy money_in of
                          Some inn \<Rightarrow>
                            (case py_float (remove_commas inn) of
                               None \<Rightarrow> Inl ValueError
                             | Some v \<Rightarrow> Inr (Some (parsed_date, description, v)))
                        | None \<Rightarrow> Inr None))))"

definition local_fallback_line :: "string \<Rightarrow> error + row option" where
  \<comment> \<open>the body of the fallback loop\<close>
  "local_fallback_line line =
     (case re_match local_fallback_pattern (strip line) of
        None \<Rightarrow> Inr None
      | Some m \<Rightarrow>
          (case local_date (group_str m 1) (group_str m 2) of
             None \<Rightarrow> Inr None
           | Some parsed_date \<Rightarrow>
               (let description = strip (group_str m 3)
                in case py_float (remove_commas (group_str m 4)) of
                     None \<Rightarrow> Inl ValueError
                   | Some v \<Rightarrow> Inr (Some (parsed_date, description, - v)))))"

definition local_parse :: "(nat \<Rightarrow> string) \<Rightarrow> string list \<Rightarrow> error + transaction list" where
  \<comment> \<open>the two loops over \<open>lines\<close>; an exception that leaves a loop ends the program with
      no output\<close>
  "local_parse uuid lines =
     (case scan_lines local_primary_line uuid lines [] of
        Inl e \<Rightarrow> Inl e
      | Inr transactions \<Rightarrow>
          if transactions = [] then scan_lines local_fallback_line uuid lines transactions
          else Inr transactions)"

section \<open>Pages and lines\<close>

text \<open>
  The text-extraction step gives the text of each page, in page order; a page with no text
  is the empty string (the parsers skip a page whose text is \<open>None\<close> or empty alike).
\<close>

definition is_linebreak :: "char \<Rightarrow> bool" where
  \<comment> \<open>the line boundaries of \<open>str.splitlines\<close>: LF, VT, FF, CR, FS, GS, RS and NEL\<close>
  "is_linebreak c = (let n = (of_char c :: nat) in (10 \<le> n \<and> n \<le> 13) \<or> (28 \<le> n \<and> n \<le> 30) \<or> n = 133)"

fun splitlines_from :: "string \<Rightarrow> string \<Rightarrow> string list" where
  \<comment> \<open>\<open>s.splitlines()\<close>, written \<open>splitlines_from [] s\<close>; CR LF is one boundary, and there
      is no empty last line\<close>
  "splitlines_from cur [] = (if cur = [] then [] else [cur])"
| "splitlines_from cur (c # cs) =
     (if is_linebreak c
      then cur # (case cs of
                    [] \<Rightarrow> []
                  | d # ds \<Rightarrow> if c = CHR 0x0D \<and> d = CHR 0x0A then splitlines_from [] ds
                              else splitlines_from [] (d # ds))
      else splitlines_from (cur @ [c]) cs)"

definition splitlines :: "string \<Rightarrow> string list" where
  "splitlines s = splitlines_from [] s"

definition full_text :: "string list \<Rightarrow> string" where
  \<comment> \<open>\<open>for page in pdf.pages: text = page.extract_text(); if text: full_text += text + "\n"\<close>\<close>
  "full_text pages = concat (map (\<lambda>text. text @ [CHR 0x0A]) (filter (\<lambda>text. text \<noteq> []) pages))"

definition local_main :: "(nat \<Rightarrow> string) \<Rightarrow> string list \<Rightarrow> error + transaction list" where
  "local_main uuid pages = local_parse uuid (splitlines (full_text pages))"

section \<open>The CBA parser (parse\_pdf\_cba.py)\<close>

definition cba_date_pattern :: re where
  \<comment> \<open>\<open>^(\d{1,2})\s+([A-Za-z]+)\s+(\d{4})\<close>\<close>
  "cba_date_pattern = seq
     [Bol, Grp 1 (times 1 2 Digit), plus Space, Grp 2 (plus Alpha), plus Space,
      Grp 3 (times 4 4 Digit)]"

definition thousands :: re where
  \<comment> \<open>\<open>\d{1,3}(?:,\d{3})*\.\d{2}\<close>\<close>
  "thousands = seq
     [times 1 3 Digit, Rep True 0 None (seq [Chr (Lit (CHR '','')), times 3 3 Digit]),
      Chr (Lit (CHR ''.'')), times 2 2 Digit]"

definition cba_amount_pattern :: re where
  \<comment> \<open>\<open>(-?\d{1,3}(?:,\d{3})*(?:\.\d{2}))\<close>\<close>
  "cba_amount_pattern = Grp 1 (seq [opt (Chr (Lit (CHR ''-''))), thousands])"

definition MONTH_MAP :: "string \<Rightarrow> string option" where
  "MONTH_MAP = map_of
     [(''January'', ''01''), (''February'', ''02''), (''March'', ''03''), (''April'', ''04''),
      (''May'', ''05''), (''June'', ''06''), (''July'', ''07''), (''August'', ''08''),
      (''September'', ''09''), (''October'', ''10''), (''November'', ''11''),
      (''December'', ''12'')]"

definition cba_date_iso :: "match \<Rightarrow> string" where
  \<comment> \<open>\<open>f"{year}-{MONTH_MAP.get(month, '01')}-{day.zfill(2)}"\<close>\<close>
  "cba_date_iso m =
     (let day = group_str m 1; month = group_str m 2; year = group_str m 3
      in year @ ''-'' @ get_or MONTH_MAP month ''01'' @ ''-'' @ zfill 2 day)"

definition cba_is_balance :: "string \<Rightarrow> bool" where
  \<comment> \<open>\<open>"OPENING BALANCE" in line or "CLOSING BALANCE" in line\<close>\<close>
  "cba_is_balance line = (str_in ''OPENING BALANCE'' line \<or> str_in ''CLOSING BALANCE'' line)"

definition cba_balance_row :: "string \<Rightarrow> row" where
  \<comment> \<open>the branch of an opening or closing balance line\<close>
  "cba_balance_row line =
     (let date_iso = (case re_search cba_date_pattern line of
                        Some date_match \<Rightarrow> cba_date_iso date_match
                      | None \<Rightarrow> []);
          description = (if str_in ''OPENING'' line then ''OPENING BALANCE''
                         else ''CLOSING BALANCE'')
      in (date_iso, description, 0))"

definition cba_dated_row :: "string \<Rightarrow> error + row option" where
  \<comment> \<open>the branch of any other line\<close>
  "cba_dated_row line =
     (case re_match cba_date_pattern line of
        None \<Rightarrow> Inr None
      | Some date_match \<Rightarrow>
          (let date_iso = cba_date_iso date_match;
               remaining = strip (drop (match_end date_match) line);
               amounts = findall cba_amount_pattern remaining
           in case (if amounts \<noteq> [] then py_float (remove_commas (last amounts)) else Some 0) of
                None \<Rightarrow> Inl ValueError
              | Some amount0 \<Rightarrow>
                  (let description =
                         (if amounts \<noteq> []
                          then strip (slice_to remaining (rfind (last amounts) remaining))
                          else remaining)
                   in Inr (Some (date_iso, description, - amount0)))))"

definition cba_line :: "string \<Rightarrow> error + row option" where
  \<comment> \<open>the body of the loop over the lines of a page\<close>
  "cba_line raw =
     (let line = strip raw
      in if cba_is_balance line then Inr (Some (cba_balance_row line))
         else cba_dated_row line)"

definition cba_parse :: "(nat \<Rightarrow> string) \<Rightarrow> string list \<Rightarrow> error + transaction list" where
  "cba_parse uuid lines = scan_lines cba_line uuid lines []"

definition cba_main :: "(nat \<Rightarrow> string) \<Rightarrow> string list \<Rightarrow> error + transaction list" where
  \<comment> \<open>every page with text, its lines in order\<close>
  "cba_main uuid pages =
     cba_parse uuid (concat (map splitlines (filter (\<lambda>text. text \<noteq> []) pages)))"

section \<open>The Westpac parser (parse\_pdf\_westpac.py)\<close>

definition westpac_line_start_pattern :: re where
  \<comment> \<open>\<open>^\s*(\d{1,2}\s+[A-Za-z]{3}\s+\d{2})\s+(.*)\<close>\<close>
  "westpac_line_start_pattern = seq
     [Bol, star Space,
      Grp 1 (seq [times 1 2 Digit, plus Space, times 3 3 Alpha, plus Space, times 2 2 Digit]),
      plus Space, Grp 2 (star Dot)]"

definition westpac_amount_pattern :: re where
  \<comment> \<open>\<open>([\d,]+\.\d{2})\<close>\<close>
  "westpac_amount_pattern = Grp 1 (seq
     [plus (OneOf [Digit, Lit (CHR '','')]), Chr (Lit (CHR ''.'')), times 2 2 Digit])"

function sub_from :: "re \<Rightarrow> string \<Rightarrow> nat \<Rightarrow> string \<Rightarrow> string" where
  \<comment> \<open>\<open>re.sub(pattern, repl, s)\<close> for a replacement text with no group reference: the
      matches found from left to right are replaced, the rest is copied\<close>
  "sub_from r repl p s =
     (case mtch r (p, s, []) of
        [] \<Rightarrow> (case s of [] \<Rightarrow> [] | x # t \<Rightarrow> x # sub_from r repl (Suc p) t)
      | (e, _, _) # _ \<Rightarrow>
          repl @ (case s of
                    [] \<Rightarrow> []
                  | x # t \<Rightarrow> if e \<le> p then x # sub_from r repl (Suc p) t
                             else sub_from r repl e (drop (e - p) (x # t))))"
  by pat_completeness auto
termination
  by (relation "measure (\<lambda>(r, repl, p, s). length s)") auto

declare sub_from.simps [simp del]

definition collapse_spaces :: "string \<Rightarrow> string" where
  \<comment> \<open>\<open>re.sub(r'\s{2,}', ' ', description)\<close>\<close>
  "collapse_spaces d = sub_from (Rep True 2 None (Chr Space)) '' '' 0 d"

definition westpac_description :: "string \<Rightarrow> string \<Rightarrow> string" where
  \<comment> \<open>the description of a row: the text before the last place where the amount occurs,
      trimmed, and the placeholder when that is empty or numeric\<close>
  "westpac_description rest_of_line amount_str =
     (let last_amount_pos = rfind amount_str rest_of_line;
          description = strip (slice_to rest_of_line last_amount_pos)
      in if description = [] \<or> isnumeric description then ''-'' else description)"

definition westpac_row :: "string \<Rightarrow> string \<Rightarrow> error + row option" where
  \<comment> \<open>the body of the loop for a line that matched, from the two groups of the match\<close>
  "westpac_row date_str rest_of_line =
     (let amounts_found = findall westpac_amount_pattern rest_of_line
      in if amounts_found = [] then Inr None
         else
           (let amount_str = last amounts_found;
                description = westpac_description rest_of_line amount_str
            in case strptime_dby date_str of
                 None \<Rightarrow> Inr None
               | Some date_obj \<Rightarrow>
                   (case py_float (remove_commas amount_str) of
                      None \<Rightarrow> Inl ValueError
                    | Some amount0 \<Rightarrow>
                        (let signed = (if \<not> str_in ''CRED VOUCHER'' description
                                       then amount0 * (- 1) else amount0)
                         in Inr (Some (strftime_Ymd date_obj, collapse_spaces description,
                                       signed))))))"

definition westpac_line :: "string \<Rightarrow> error + row option" where
  \<comment> \<open>the body of the loop over the lines of a page\<close>
  "westpac_line line =
     (case re_match westpac_line_start_pattern line of
        None \<Rightarrow> Inr None
      | Some line_match \<Rightarrow> westpac_row (group_str line_match 1) (group_str line_match 2))"

definition westpac_page_lines :: "string list \<Rightarrow> nat \<Rightarrow> string list" where
  \<comment> \<open>the lines of page \<open>page_num\<close>: none when the document has no such page or the page
      has no text; \<open>text.split('\n')\<close> otherwise\<close>
  "westpac_page_lines pages page_num =
     (if page_num \<ge> length pages then []
      else (let text = pages ! page_num
            in if text = [] then [] else split_on [CHR 0x0A] [] text))"

definition westpac_parse :: "(nat \<Rightarrow> string) \<Rightarrow> string list \<Rightarrow> error + transaction list" where
  "westpac_parse uuid lines = scan_lines westpac_line uuid lines []"

definition westpac_main :: "(nat \<Rightarrow> string) \<Rightarrow> string list \<Rightarrow> error + transaction list" where
  \<comment> \<open>\<open>for page_num in [2, 3, 4]: ...\<close>\<close>
  "westpac_main uuid pages =
     westpac_parse uuid (concat (map (westpac_page_lines pages) [2, 3, 4]))"

section \<open>The Westpac credit card parser (parse\_pdf\_westpac\_credit\_card.py)\<close>

definition wcc_date_pattern :: re where
  \<comment> \<open>\<open>^(\d{2}/\d{2}/\d{2})\s+(.*)\<close>\<close>
  "wcc_date_pattern = seq
     [Bol,
      Grp 1 (seq [times 2 2 Digit, Chr (Lit (CHR ''/'')), times 2 2 Digit, Chr (Lit (CHR ''/'')),
                  times 2 2 Digit]),
      plus Space, Grp 2 (star Dot)]"

definition wcc_is_amounts_line :: "string \<Rightarrow> bool" where
  \<comment> \<open>\<open>len(re.findall(r"\d{1,3}(?:,\d{3})*\.\d{2}", next_line)) >= 2\<close>\<close>
  "wcc_is_amounts_line next_line = (length (findall thousands next_line) \<ge> 2)"

fun wcc_collect :: "string list \<Rightarrow> string list \<Rightarrow> string list \<times> string \<times> string list" where
  \<comment> \<open>The inner \<open>while True\<close> loop, from the description parts so far and the lines after
      line \<open>i\<close>: the description parts, the amounts line (empty when the lines run out) and
      the lines after the last one read.\<close>
  "wcc_collect description_parts [] = (description_parts, [], [])"
| "wcc_collect description_parts (l # ls) =
     (let next_line = strip l
      in if wcc_is_amounts_line next_line then (description_parts, next_line, ls)
         else wcc_collect (description_parts @ [next_line]) ls)"

definition wcc_slots :: "string \<Rightarrow> string list \<Rightarrow> string \<times> string" where
  \<comment> \<open>the debit and the credit text chosen from the tokens of the amounts line\<close>
  "wcc_slots full_description amounts =
     (if length amounts = 3 then (amounts ! 0, amounts ! 1)
      else if length amounts = 2 then
        (if str_in ''Deposit'' full_description \<or> str_in ''Refund'' full_description
         then ([], amounts ! 0) else (amounts ! 0, []))
      else ([], []))"

definition wcc_amount :: "string \<Rightarrow> string list \<Rightarrow> error + amount option" where
  \<comment> \<open>the signed amount; \<open>None\<close> when neither slot is filled\<close>
  "wcc_amount full_description amounts =
     (case wcc_slots full_description amounts of (debit, credit) \<Rightarrow>
        if debit \<noteq> [] then
          (case py_float (remove_commas debit) of
             None \<Rightarrow> Inl ValueError | Some v \<Rightarrow> Inr (Some (- v)))
        else if credit \<noteq> [] then
          (case py_float (remove_commas credit) of
             None \<Rightarrow> Inl ValueError | Some v \<Rightarrow> Inr (Some v))
        else Inr None)"

definition wcc_step :: "string \<Rightarrow> string list \<Rightarrow> (error + row option) \<times> string list" where
  \<comment> \<open>One round of the outer loop at line \<open>i\<close>, given the lines after it: what is
      appended, and the lines after the new \<open>i\<close>.\<close>
  "wcc_step l rest =
     (let line = strip l
      in case re_match wcc_date_pattern line of
           None \<Rightarrow> (Inr None, rest)
         | Some m \<Rightarrow>
             (case strptime_dmy (group_str m 1) of
                None \<Rightarrow> (Inr None, rest)
              | Some dt \<Rightarrow>
                  (case wcc_collect [strip (group_str m 2)] rest of
                     (description_parts, amounts_line, rest') \<Rightarrow>
                       (let full_description = join '' '' description_parts;
                            amounts = findall thousands amounts_line
                        in case wcc_amount full_description amounts of
                             Inl e \<Rightarrow> (Inl e, rest')
                           | Inr None \<Rightarrow> (Inr None, rest')
                           | Inr (Some a) \<Rightarrow>
                               (Inr (Some (strftime_Ymd dt, full_description, a)), rest')))))"

lemma wcc_collect_length:
  "wcc_collect parts ls = (parts', amounts_line, rest') \<Longrightarrow> length rest' \<le> length ls"
proof (induction ls arbitrary: parts)
  case Nil
  then show ?case by simp
next
  case (Cons a ls)
  show ?case
  proof (cases "wcc_is_amounts_line (strip a)")
    case True
    with Cons.prems show ?thesis by (simp add: Let_def)
  next
    case False
    with Cons.prems have "wcc_collect (parts @ [strip a]) ls = (parts', amounts_line, rest')"
      by (simp add: Let_def)
    from Cons.IH [OF this] show ?thesis by simp
  qed
qed

lemma wcc_step_length: "wcc_step l rest = (out, rest') \<Longrightarrow> length rest' \<le> length rest"
  by (auto simp: wcc_step_def Let_def split: option.splits prod.splits sum.splits
           dest: wcc_collect_length)

function wcc_loop ::
  "(nat \<Rightarrow> string) \<Rightarrow> string list \<Rightarrow> transaction list \<Rightarrow> error + transaction list" where
  \<comment> \<open>\<open>while i < len(lines): ...\<close>, the second argument being the lines from \<open>i\<close> on\<close>
  "wcc_loop uuid [] ts = Inr ts"
| "wcc_loop uuid (l # rest) ts =
     (case wcc_step l rest of
        (Inl e, _) \<Rightarrow> Inl e
      | (Inr None, rest') \<Rightarrow> wcc_loop uuid rest' ts
      | (Inr (Some r), rest') \<Rightarrow> wcc_loop uuid rest' (append_txn uuid ts r))"
  by pat_completeness auto
termination
proof (relation "measure (\<lambda>(uuid, lines, ts). length lines)")
  show "wf (measure (\<lambda>(uuid, lines, ts). length lines))"
    by simp
next
  fix uuid :: "nat \<Rightarrow> string" and l rest and ts :: "transaction list" and x1 x2 x2a
  assume "(x1, x2) = wcc_step l rest" "x1 = Inr x2a" "x2a = None"
  then show "((uuid, x2, ts), (uuid, l # rest, ts)) \<in> measure (\<lambda>(uuid, lines, ts). length lines)"
    using wcc_step_length [of l rest x1 x2] by simp
next
  fix uuid :: "nat \<Rightarrow> string" and l rest ts x1 x2 x2a r
  assume "(x1, x2) = wcc_step l rest" "x1 = Inr x2a" "x2a = Some r"
  then show "((uuid, x2, append_txn uuid ts r), (uuid, l # rest, ts))
               \<in> measure (\<lambda>(uuid, lines, ts). length lines)"
    using wcc_step_length [of l rest x1 x2] by simp
qed

definition wcc_parse :: "(nat \<Rightarrow> string) \<Rightarrow> string list \<Rightarrow> error + transaction list" where
  "wcc_parse uuid lines = wcc_loop uuid lines []"

definition wcc_main :: "(nat \<Rightarrow> string) \<Rightarrow> string list \<Rightarrow> error + transaction list" where
  "wcc_main uuid pages = wcc_parse uuid (splitlines (full_text pages))"

section \<open>The ANZ parser (parse\_pdf\_anz.py)\<close>

definition slash_date :: re where
  \<comment> \<open>\<open>\d{2}/\d{2}/\d{4}\<close>\<close>
  "slash_date = seq [times 2 2 Digit, Chr (Lit (CHR ''/'')), times 2 2 Digit,
                     Chr (Lit (CHR ''/'')), times 4 4 Digit]"

definition dollars :: re where
  \<comment> \<open>\<open>[\d,]+\.\d{2}\<close>\<close>
  "dollars = seq [plus (OneOf [Digit, Lit (CHR '','')]), Chr (Lit (CHR ''.'')), times 2 2 Digit]"

definition anz_pattern :: re where
  \<comment> \<open>The pattern of the ANZ rows. Its groups: 1 the whole row, 2 \<open>date_processed\<close>,
      3 \<open>date_transaction\<close>, 4 \<open>card\<close>, 5 \<open>description\<close>, 6 \<open>amount\<close>, 7 \<open>credit_label\<close>,
      8 \<open>balance\<close>.\<close>
  "anz_pattern = Grp 1 (seq
     [Grp 2 slash_date, plus Space,
      Grp 3 slash_date, plus Space,
      Grp 4 (times 4 4 Digit), plus Space,
      Grp 5 (Rep False 0 None (Chr Dot)), plus Space,
      opt (Chr (Lit (CHR ''$''))), Grp 6 dollars, star Space,
      opt (Grp 7 (lit ''CR'')), plus Space,
      opt (Chr (Lit (CHR ''$''))), Grp 8 dollars])"

definition anz_row :: "match \<Rightarrow> error + row option" where
  \<comment> \<open>the body of the loop over the matches; an exception here ends the run\<close>
  "anz_row m =
     (let raw_date = group_str m 3
      in case strptime_dmY raw_date of
           None \<Rightarrow> Inl ValueError
         | Some date_obj \<Rightarrow>
             (let date_iso = strftime_Ymd date_obj;
                  amount_str = remove_commas (group_str m 6)
              in case py_float amount_str of
                   None \<Rightarrow> Inl ValueError
                 | Some amount0 \<Rightarrow>
                     (let credit_label = group m 7;
                          signed_amount = (case truthy credit_label of
                                             Some _ \<Rightarrow> amount0 | None \<Rightarrow> - amount0)
                      in Inr (Some (date_iso, strip (group_str m 5), signed_amount)))))"

definition anz_parse :: "(nat \<Rightarrow> string) \<Rightarrow> string \<Rightarrow> error + transaction list" where
  \<comment> \<open>\<open>for m in pattern.finditer(full_text): ...\<close>\<close>
  "anz_parse uuid text = scan_lines anz_row uuid (finditer anz_pattern text) []"

definition anz_main :: "(nat \<Rightarrow> string) \<Rightarrow> string list \<Rightarrow> error + transaction list" where
  "anz_main uuid pages = anz_parse uuid (full_text pages)"

section \<open>The American Express parser (parse\_pdf\_amex.py)\<close>

definition month_names :: "string list" where
  "month_names = [''January'', ''February'', ''March'', ''April'', ''May'', ''June'', ''July'',
                  ''August'', ''September'', ''October'', ''November'', ''December'']"

definition amex_month_map :: "string \<Rightarrow> string option" where
  \<comment> \<open>\<open>month_map\<close> of this parser\<close>
  "amex_month_map = map_of
     [(''January'', ''01''), (''February'', ''02''), (''March'', ''03''), (''April'', ''04''),
      (''May'', ''05''), (''June'', ''06''), (''July'', ''07''), (''August'', ''08''),
      (''September'', ''09''), (''October'', ''10''), (''November'', ''11''),
      (''December'', ''12'')]"

definition amex_date_line_pattern :: re where
  \<comment> \<open>\<open>^(January|...|December)(\d{1,2})\s+(.+?)\s+(\d+\.\d{2})$\<close>\<close>
  "amex_date_line_pattern = seq
     [Bol, Grp 1 (alts (map lit month_names)), Grp 2 (times 1 2 Digit), plus Space,
      Grp 3 (Rep False 1 None (Chr Dot)), plus Space,
      Grp 4 (seq [plus Digit, Chr (Lit (CHR ''.'')), times 2 2 Digit]), Eol]"

definition amex_reference :: "string list \<Rightarrow> error + string" where
  \<comment> \<open>the reference of the line after a matched one, from the lines after it\<close>
  "amex_reference rest =
     (case rest of
        [] \<Rightarrow> Inr []
      | l # _ \<Rightarrow>
          (let next_line = strip l
           in if str_in ''Reference:'' next_line then
                (case split_on ''Reference:'' [] next_line of
                   _ # x # _ \<Rightarrow> Inr (strip x)
                 | _ \<Rightarrow> Inl IndexError)
              else Inr []))"

definition amex_row :: "string \<Rightarrow> string list \<Rightarrow> error + row option" where
  \<comment> \<open>the body of the loop at a line, given the lines after it\<close>
  "amex_row l rest =
     (let line = strip l
      in case re_match amex_date_line_pattern line of
           None \<Rightarrow> Inr None
         | Some m \<Rightarrow>
             (let month_name = group_str m 1;
                  day = zfill 2 (group_str m 2);
                  description = strip (group_str m 3)
              in case py_float (group_str m 4) of
                   None \<Rightarrow> Inl ValueError
                 | Some amount0 \<Rightarrow>
                     (case amex_month_map month_name of
                        None \<Rightarrow> Inl KeyError
                      | Some mm \<Rightarrow>
                          (let date_str = ''2025-'' @ mm @ ''-'' @ day
                           in case amex_reference rest of
                                Inl e \<Rightarrow> Inl e
                              | Inr reference_line \<Rightarrow>
                                  (let full_description =
                                         (if reference_line \<noteq> []
                                          then description @ '' Ref:'' @ reference_line
                                          else description)
                                   in Inr (Some (date_str, full_description, - amount0)))))))"

fun amex_loop ::
  "(nat \<Rightarrow> string) \<Rightarrow> string list \<Rightarrow> transaction list \<Rightarrow> error + transaction list" where
  \<comment> \<open>\<open>while i < len(lines): ...\<close>, the second argument being the lines from \<open>i\<close> on. In
      both branches \<open>i\<close> grows by one: the line read for its reference is the next line of
      the loop.\<close>
  "amex_loop uuid [] ts = Inr ts"
| "amex_loop uuid (l # rest) ts =
     (case amex_row l rest of
        Inl e \<Rightarrow> Inl e
      | Inr None \<Rightarrow> amex_loop uuid rest ts
      | Inr (Some r) \<Rightarrow> amex_loop uuid rest (append_txn uuid ts r))"

definition amex_parse :: "(nat \<Rightarrow> string) \<Rightarrow> string list \<Rightarrow> error + transaction list" where
  "amex_parse uuid lines = amex_loop uuid lines []"

definition amex_main :: "(nat \<Rightarrow> string) \<Rightarrow> string list \<Rightarrow> error + transaction list" where
  "amex_main uuid pages = amex_parse uuid (splitlines (full_text pages))"

section \<open>Predicates of the statements\<close>

fun accepts :: "re \<Rightarrow> char \<Rightarrow> bool" where
  \<comment> \<open>the characters a pattern can consume\<close>
  "accepts Bol ch = False"
| "accepts Eol ch = False"
| "accepts (Chr k) ch = cls_ok k ch"
| "accepts (Seq a b) ch = (accepts a ch \<or> accepts b ch)"
| "accepts (Alt a b) ch = (accepts a ch \<or> accepts b ch)"
| "accepts (Rep g lo hi a) ch = accepts a ch"
| "accepts (Grp i a) ch = accepts a ch"

fun cap_accepts :: "re \<Rightarrow> nat \<Rightarrow> char \<Rightarrow> bool" where
  \<comment> \<open>the characters group \<open>n\<close> of a pattern can capture\<close>
  "cap_accepts Bol n ch = False"
| "cap_accepts Eol n ch = False"
| "cap_accepts (Chr k) n ch = False"
| "cap_accepts (Seq a b) n ch = (cap_accepts a n ch \<or> cap_accepts b n ch)"
| "cap_accepts (Alt a b) n ch = (cap_accepts a n ch \<or> cap_accepts b n ch)"
| "cap_accepts (Rep g lo hi a) n ch = cap_accepts a n ch"
| "cap_accepts (Grp i a) n ch = ((i = n \<and> accepts a ch) \<or> cap_accepts a n ch)"

definition step_ok :: "(char \<Rightarrow> bool) \<Rightarrow> (nat \<Rightarrow> char \<Rightarrow> bool) \<Rightarrow> mstate \<Rightarrow> mstate \<Rightarrow> bool" where
  \<comment> \<open>state \<open>t\<close> is reached from state \<open>s\<close> by consuming characters of \<open>A\<close> and capturing
      texts of \<open>C\<close>\<close>
  "step_ok A C s t =
     (\<exists>m new. fst (snd s) = m @ fst (snd t) \<and> fst t = fst s + length m \<and> list_all A m \<and>
        snd (snd t) = new @ snd (snd s) \<and> list_all (\<lambda>(n, txt). list_all (C n) txt) new)"





definition content :: "transaction \<Rightarrow> row" where
  "content t = (date t, description t, amount t)"

definition batch_content :: "error + transaction list \<Rightarrow> error + row list" where
  "batch_content b = map_sum id (map content) b"

definition same_page :: "string list \<Rightarrow> string list \<Rightarrow> nat \<Rightarrow> bool" where
  \<comment> \<open>two documents agree at a page index: both have the page, with the same text, or
      neither has it\<close>
  "same_page pages pages' i =
     (if i < length pages then i < length pages' \<and> pages ! i = pages' ! i
      else \<not> i < length pages')"

section \<open>What a match can contain\<close>

lemma step_ok_refl: "step_ok A C s s"
  by (simp add: step_ok_def)

lemma step_ok_trans:
  assumes "step_ok A C s t" and "step_ok A C t u"
  shows "step_ok A C s u"
proof -
  from assms(1) obtain m new where 1: "fst (snd s) = m @ fst (snd t)" "fst t = fst s + length m"
    "list_all A m" "snd (snd t) = new @ snd (snd s)" "list_all (\<lambda>(n, txt). list_all (C n) txt) new"
    unfolding step_ok_def by blast
  from assms(2) obtain m' new' where 2: "fst (snd t) = m' @ fst (snd u)" "fst u = fst t + length m'"
    "list_all A m'" "snd (snd u) = new' @ snd (snd t)" "list_all (\<lambda>(n, txt). list_all (C n) txt) new'"
    unfolding step_ok_def by blast
  show ?thesis
    unfolding step_ok_def
    by (rule exI [of _ "m @ m'"], rule exI [of _ "new' @ new"]) (use 1 2 in simp)
qed

lemma step_ok_mono:
  assumes "step_ok A C s t" and "\<And>ch. A ch \<Longrightarrow> A' ch" and "\<And>n ch. C n ch \<Longrightarrow> C' n ch"
  shows "step_ok A' C' s t"
proof -
  from assms(1) obtain m new where 1: "fst (snd s) = m @ fst (snd t)" "fst t = fst s + length m"
    "list_all A m" "snd (snd t) = new @ snd (snd s)" "list_all (\<lambda>(n, txt). list_all (C n) txt) new"
    unfolding step_ok_def by blast
  have a: "list_all A' m"
    using 1(3) assms(2) by (simp add: list_all_iff)
  have c: "list_all (\<lambda>(n, txt). list_all (C' n) txt) new"
    using 1(5) assms(3) by (fastforce simp: list_all_iff)
  show ?thesis
    unfolding step_ok_def using 1 a c by blast
qed

lemma iter_ok:
  assumes f: "\<And>s t. t \<in> set (f s) \<Longrightarrow> step_ok A C s t"
  shows "t \<in> set (iter f g lo hi n s) \<Longrightarrow> step_ok A C s t"
proof (induction n arbitrary: lo hi s t)
  case 0
  then show ?case by (auto simp: step_ok_refl split: if_splits)
next
  case (Suc n)
  from Suc.prems consider (stop) "t = s"
    | (more) u where "u \<in> set (f s)" "t \<in> set (iter f g (lo - 1) (map_option (\<lambda>h. h - 1) hi) n u)"
    by (auto simp: Let_def split: if_splits)
  then show ?case
  proof cases
    case stop
    then show ?thesis by (simp add: step_ok_refl)
  next
    case more
    from f [OF more(1)] Suc.IH [OF more(2)] show ?thesis by (rule step_ok_trans)
  qed
qed

lemma mtch_ok: "t \<in> set (mtch r s) \<Longrightarrow> step_ok (accepts r) (cap_accepts r) s t"
proof (induction r arbitrary: s t)
  case Bol
  then show ?case by (cases s) (auto simp: step_ok_refl split: if_splits)
next
  case Eol
  then show ?case by (cases s) (auto simp: step_ok_refl split: if_splits)
next
  case (Chr k)
  obtain p r c where s: "s = (p, r, c)" by (cases s)
  with Chr obtain x xs where "r = x # xs" "cls_ok k x" "t = (Suc p, xs, c)"
    by (auto split: list.splits if_splits)
  with s show ?case
    unfolding step_ok_def by (intro exI [of _ "[x]"] exI [of _ "[]"]) simp
next
  case (Seq a b)
  from Seq.prems obtain u where u: "u \<in> set (mtch a s)" "t \<in> set (mtch b u)"
    by auto
  have 1: "step_ok (accepts (Seq a b)) (cap_accepts (Seq a b)) s u"
    by (rule step_ok_mono [OF Seq.IH(1) [OF u(1)]]) simp_all
  have 2: "step_ok (accepts (Seq a b)) (cap_accepts (Seq a b)) u t"
    by (rule step_ok_mono [OF Seq.IH(2) [OF u(2)]]) simp_all
  from 1 2 show ?case by (rule step_ok_trans)
next
  case (Alt a b)
  from Alt.prems consider "t \<in> set (mtch a s)" | "t \<in> set (mtch b s)"
    by auto
  then show ?case
  proof cases
    case 1
    show ?thesis by (rule step_ok_mono [OF Alt.IH(1) [OF 1]]) simp_all
  next
    case 2
    show ?thesis by (rule step_ok_mono [OF Alt.IH(2) [OF 2]]) simp_all
  qed
next
  case (Rep g lo hi a)
  obtain p r c where s: "s = (p, r, c)" by (cases s)
  with Rep.prems have "t \<in> set (iter (mtch a) g lo hi (length r) s)"
    by simp
  then have "step_ok (accepts a) (cap_accepts a) s t"
    by (rule iter_ok [rotated]) (rule Rep.IH)
  then show ?case by (rule step_ok_mono) simp_all
next
  case (Grp i a)
  obtain p r c where s: "s = (p, r, c)" by (cases s)
  with Grp.prems obtain p' r' c' where u: "(p', r', c') \<in> set (mtch a (p, r, c))"
    and t: "t = (p', r', (i, take (p' - p) r) # c')"
    by auto
  from Grp.IH [OF u] obtain m new where 1: "r = m @ r'" "p' = p + length m" "list_all (accepts a) m"
    "c' = new @ c" "list_all (\<lambda>(n, txt). list_all (cap_accepts a n) txt) new"
    unfolding step_ok_def by auto
  have tk: "take (p' - p) r = m"
    using 1(1,2) by simp
  have new: "list_all (\<lambda>(n, txt). list_all (cap_accepts (Grp i a) n) txt) ((i, m) # new)"
    using 1(3,5) by (auto simp: list_all_iff)
  have acc: "list_all (accepts (Grp i a)) m"
    using 1(3) by (simp add: list_all_iff)
  show ?case
    unfolding step_ok_def s t tk
    by (intro exI [of _ m] exI [of _ "(i, m) # new"]) (use 1(1,2,4) new acc in simp)
qed

lemma map_of_list_all:
  "list_all (\<lambda>(n, txt). P n txt) new \<Longrightarrow> map_of new n = Some txt \<Longrightarrow> P n txt"
  by (induction new) (auto split: if_splits)

lemma re_match_group:
  assumes "re_match r s = Some m" and "group m n = Some txt"
  shows "list_all (cap_accepts r n) txt"
proof -
  from assms(1) obtain e r' c rest where hd: "mtch r (0, s, []) = (e, r', c) # rest"
    and m: "m_caps m = c"
    by (auto simp: re_match_def split: list.splits)
  then have "(e, r', c) \<in> set (mtch r (0, s, []))" by simp
  from mtch_ok [OF this] have "list_all (\<lambda>(n, txt). list_all (cap_accepts r n) txt) c"
    by (auto simp: step_ok_def)
  from map_of_list_all [OF this] assms(2) m show ?thesis
    by (simp add: group_def)
qed

lemma finditer_from_ok:
  "m \<in> set (finditer_from r p s) \<Longrightarrow>
   list_all (accepts r) (m_text m) \<and> (\<forall>n txt. group m n = Some txt \<longrightarrow> list_all (cap_accepts r n) txt)"
proof (induction r p s rule: finditer_from.induct)
  case (1 r p s)
  note unf = finditer_from.simps [of r p s]
  show ?case
  proof (cases "mtch r (p, s, [])")
    case Nil
    show ?thesis
    proof (cases s)
      case Nil' : Nil
      from 1(3) [unfolded unf] Nil Nil' show ?thesis by simp
    next
      case (Cons x t)
      from 1(3) [unfolded unf] Nil Cons have "m \<in> set (finditer_from r (Suc p) t)"
        by simp
      from "1.IH"(1) [OF Nil Cons this] show ?thesis .
    qed
  next
    case (Cons st rest)
    obtain e r' c where st: "st = (e, r', c)" by (cases st)
    from Cons st have "(e, r', c) \<in> set (mtch r (p, s, []))" by simp
    from mtch_ok [OF this] obtain mm where mm: "s = mm @ r'" "e = p + length mm"
      "list_all (accepts r) mm" "list_all (\<lambda>(n, txt). list_all (cap_accepts r n) txt) c"
      by (auto simp: step_ok_def)
    have tk: "take (e - p) s = mm" using mm(1,2) by simp
    let ?m0 = "\<lparr>m_start = p, m_end = e, m_text = take (e - p) s, m_caps = c\<rparr>"
    have m0: "list_all (accepts r) (m_text ?m0) \<and>
        (\<forall>n txt. group ?m0 n = Some txt \<longrightarrow> list_all (cap_accepts r n) txt)"
      using mm(3,4) tk map_of_list_all [of "\<lambda>n txt. list_all (cap_accepts r n) txt" c]
      by (auto simp: group_def)
    from 1(3) [unfolded unf] Cons st consider "m = ?m0"
      | "s \<noteq> []" "m \<in> set (finditer_from r (p + max 1 (e - p)) (drop (max 1 (e - p)) s))"
      by (auto split: if_splits)
    then show ?thesis
    proof cases
      case 1
      with m0 show ?thesis by simp
    next
      case 2
      from "1.IH"(2) [OF Cons st [symmetric] refl 2(1) 2(2)] show ?thesis .
    qed
  qed
qed

lemma findall_ok: "t \<in> set (findall r s) \<Longrightarrow> list_all (accepts r) t"
  by (auto simp: findall_def finditer_def dest: finditer_from_ok)

section \<open>Signs of converted numbers\<close>

lemma foldl_digits_nonneg:
  "0 \<le> a \<Longrightarrow> 0 \<le> foldl (\<lambda>acc c. 10 * acc + of_nat (digit_val c)) (a :: amount) s"
  by (induction s arbitrary: a) simp_all

lemma amount_of_digits_nonneg: "0 \<le> amount_of_digits s"
  by (simp add: amount_of_digits_def foldl_digits_nonneg)

lemma unsigned_float_nonneg: "unsigned_float s = Some v \<Longrightarrow> 0 \<le> v"
  by (auto simp: unsigned_float_def Let_def amount_of_digits_nonneg
           split: list.splits if_splits)

lemma py_float_nonneg:
  assumes "py_float s = Some v" and "CHR ''-'' \<notin> set s"
  shows "0 \<le> v"
  using assms
  by (cases s) (auto simp: py_float_def split: if_splits dest: unsigned_float_nonneg)

lemma py_float_minus:
  assumes "py_float (CHR ''-'' # s) = Some v"
  shows "v \<le> 0"
  using assms by (auto simp: py_float_def dest: unsigned_float_nonneg)

lemma remove_commas_set: "set (remove_commas s) \<subseteq> set s"
  by (auto simp: remove_commas_def)

lemma remove_commas_minus: "remove_commas (CHR ''-'' # s) = CHR ''-'' # remove_commas s"
  by (simp add: remove_commas_def)

lemma not_minus_digit: "is_digit c \<Longrightarrow> c \<noteq> CHR ''-''"
  by (auto simp: is_digit_def Let_def)

section \<open>Dates are written with digits\<close>

lemma digit_char_is_digit: "is_digit (digit_char n)"
  by (simp add: is_digit_def digit_char_def Let_def)

lemma digit_val_digit_char: "digit_val (digit_char n) = n mod 10"
  by (simp add: digit_val_def digit_char_def)

lemma nat_of_digits_pad2: "n < 100 \<Longrightarrow> nat_of_digits (pad2 n) = n"
  by (simp add: nat_of_digits_def pad2_def digit_val_digit_char)

lemma foldl_digits:
  "foldl (\<lambda>acc c. 10 * acc + digit_val c) a s
     = a * 10 ^ length s + foldl (\<lambda>acc c. 10 * acc + digit_val c) 0 s"
proof (induction s arbitrary: a)
  case Nil
  then show ?case by simp
next
  case (Cons c s)
  have "foldl (\<lambda>acc c. 10 * acc + digit_val c) a (c # s)
      = (10 * a + digit_val c) * 10 ^ length s + foldl (\<lambda>acc c. 10 * acc + digit_val c) 0 s"
    using Cons.IH [of "10 * a + digit_val c"] by simp
  moreover have "foldl (\<lambda>acc c. 10 * acc + digit_val c) 0 (c # s)
      = digit_val c * 10 ^ length s + foldl (\<lambda>acc c. 10 * acc + digit_val c) 0 s"
    using Cons.IH [of "digit_val c"] by simp
  ultimately show ?case
    by (simp add: algebra_simps)
qed

lemma nat_of_digits_append:
  "nat_of_digits (a @ b) = nat_of_digits a * 10 ^ length b + nat_of_digits b"
  unfolding nat_of_digits_def foldl_append by (rule foldl_digits)

lemma nat_of_digits_pad4: "n < 10000 \<Longrightarrow> nat_of_digits (pad4 n) = n"
proof -
  assume "n < 10000"
  then have "n div 100 < 100" "n mod 100 < 100" by simp_all
  then have "nat_of_digits (pad2 (n div 100)) = n div 100"
    and "nat_of_digits (pad2 (n mod 100)) = n mod 100"
    by (simp_all add: nat_of_digits_pad2)
  moreover have "length (pad2 (n mod 100)) = 2"
    by (simp add: pad2_def)
  ultimately show ?thesis
    by (simp add: pad4_def nat_of_digits_append)
qed

lemma days_in_month_le: "days_in_month y m \<le> 31"
  by (simp add: days_in_month_def)

lemma strftime_is_iso:
  assumes "valid_date y m d"
  shows "is_iso_date (strftime_Ymd (y, m, d))"
proof -
  from assms have y: "y < 10000" and m: "m < 100" and d: "d < 100"
    using days_in_month_le [of y m] by (auto simp: valid_date_def)
  have s: "strftime_Ymd (y, m, d) = pad4 y @ ''-'' @ pad2 m @ ''-'' @ pad2 d"
    by (simp add: strftime_Ymd_def)
  have l4: "length (pad4 y) = 4" and l2: "length (pad2 m) = 2" "length (pad2 d) = 2"
    by (simp_all add: pad4_def pad2_def)
  have t4: "take 4 (strftime_Ymd (y, m, d)) = pad4 y"
    by (simp add: s l4)
  have t2: "take 2 (drop 5 (strftime_Ymd (y, m, d))) = pad2 m"
    by (simp add: s pad4_def pad2_def)
  have t8: "drop 8 (strftime_Ymd (y, m, d)) = pad2 d"
    by (simp add: s pad4_def pad2_def)
  have dg: "list_all is_digit (pad4 y)" "list_all is_digit (pad2 m)" "list_all is_digit (pad2 d)"
    by (simp_all add: pad4_def pad2_def digit_char_is_digit)
  have n4: "strftime_Ymd (y, m, d) ! 4 = CHR ''-''" "strftime_Ymd (y, m, d) ! 7 = CHR ''-''"
    by (simp_all add: s pad4_def pad2_def)
  have len: "length (strftime_Ymd (y, m, d)) = 10"
    by (simp add: s l4 l2)
  show ?thesis
    unfolding is_iso_date_def t4 t2 t8
    using len n4 dg assms nat_of_digits_pad4 [OF y] nat_of_digits_pad2 [OF m]
      nat_of_digits_pad2 [OF d]
    by simp
qed

lemma mk_date_valid: "mk_date y m d = Some dt \<Longrightarrow> is_iso_date (strftime_Ymd dt)"
  by (auto simp: mk_date_def split: if_splits intro: strftime_is_iso)


lemma strptime_dby_iso: "strptime_dby s = Some dt \<Longrightarrow> is_iso_date (strftime_Ymd dt)"
  by (auto simp: strptime_dby_def split: option.splits dest: mk_date_valid)

lemma strptime_dmy_iso: "strptime_dmy s = Some dt \<Longrightarrow> is_iso_date (strftime_Ymd dt)"
  by (auto simp: strptime_dmy_def split: option.splits dest: mk_date_valid)

lemma strptime_dmY_iso: "strptime_dmY s = Some dt \<Longrightarrow> is_iso_date (strftime_Ymd dt)"
  by (auto simp: strptime_dmY_def split: option.splits dest: mk_date_valid)


section \<open>Loops over lines\<close>

lemma scan_lines_append:
  "scan_lines body uuid (xs @ ys) ts =
     (case scan_lines body uuid xs ts of Inl e \<Rightarrow> Inl e | Inr ts' \<Rightarrow> scan_lines body uuid ys ts')"
  by (induction xs arbitrary: ts) (auto split: sum.splits option.splits)


lemma scan_lines_rows:
  "scan_lines body uuid xs ts = Inr ts' \<Longrightarrow> t \<in> set ts' \<Longrightarrow>
   t \<in> set ts \<or> (\<exists>l \<in> set xs. body l = Inr (Some (date t, description t, amount t)))"
proof (induction xs arbitrary: ts)
  case Nil
  then show ?case by simp
next
  case (Cons x xs)
  show ?case
  proof (cases "body x")
    case (Inl e)
    with Cons.prems show ?thesis by simp
  next
    case (Inr res)
    show ?thesis
    proof (cases res)
      case None
      with Inr Cons.prems have "scan_lines body uuid xs ts = Inr ts'" by simp
      from Cons.IH [OF this Cons.prems(2)] show ?thesis by auto
    next
      case (Some r)
      with Inr Cons.prems have "scan_lines body uuid xs (append_txn uuid ts r) = Inr ts'"
        by simp
      from Cons.IH [OF this Cons.prems(2)]
      have "t \<in> set (append_txn uuid ts r) \<or>
            (\<exists>l \<in> set xs. body l = Inr (Some (date t, description t, amount t)))" .
      then show ?thesis
      proof
        assume "t \<in> set (append_txn uuid ts r)"
        then have "t \<in> set ts \<or> (date t, description t, amount t) = r"
          by (cases r) (auto simp: append_txn_def)
        with Inr Some show ?thesis by auto
      next
        assume "\<exists>l \<in> set xs. body l = Inr (Some (date t, description t, amount t))"
        then show ?thesis by auto
      qed
    qed
  qed
qed

lemma no_minus_float:
  assumes "list_all (\<lambda>ch. ch \<noteq> CHR ''-'') g" and "py_float (remove_commas g) = Some v"
  shows "0 \<le> v"
proof -
  from assms(1) have "CHR ''-'' \<notin> set (remove_commas g)"
    using remove_commas_set [of g] by (auto simp: list_all_iff)
  with assms(2) show ?thesis by (rule py_float_nonneg)
qed

section \<open>Amount tokens\<close>

lemma finditer_from_origin:
  "m \<in> set (finditer_from r p s) \<Longrightarrow>
   \<exists>q rest e r' c tl. mtch r (q, rest, []) = (e, r', c) # tl \<and> m_text m = take (e - q) rest"
proof (induction r p s rule: finditer_from.induct)
  case (1 r p s)
  note unf = finditer_from.simps [of r p s]
  show ?case
  proof (cases "mtch r (p, s, [])")
    case Nil
    show ?thesis
    proof (cases s)
      case Nil' : Nil
      from 1(3) [unfolded unf] Nil Nil' show ?thesis by simp
    next
      case (Cons x t)
      from 1(3) [unfolded unf] Nil Cons have "m \<in> set (finditer_from r (Suc p) t)"
        by simp
      from "1.IH"(1) [OF Nil Cons this] show ?thesis .
    qed
  next
    case (Cons st rest)
    obtain e r' c where st: "st = (e, r', c)" by (cases st)
    let ?m0 = "\<lparr>m_start = p, m_end = e, m_text = take (e - p) s, m_caps = c\<rparr>"
    from 1(3) [unfolded unf] Cons st consider "m = ?m0"
      | "s \<noteq> []" "m \<in> set (finditer_from r (p + max 1 (e - p)) (drop (max 1 (e - p)) s))"
      by (auto split: if_splits)
    then show ?thesis
    proof cases
      case 1
      with Cons st have "mtch r (p, s, []) = (e, r', c) # rest \<and> m_text m = take (e - p) s"
        by simp
      then show ?thesis by blast
    next
      case 2
      from "1.IH"(2) [OF Cons st [symmetric] refl 2(1) 2(2)] show ?thesis .
    qed
  qed
qed

lemma iter_none_left: "iter f g 0 (Some 0) n s = [s]"
  by (cases n) (simp_all add: Let_def)

lemma mtch_opt_lit:
  "u \<in> set (mtch (opt (Chr (Lit x))) (q, rest, c)) \<Longrightarrow>
   u = (q, rest, c) \<or> (\<exists>rest'. rest = x # rest' \<and> u = (Suc q, rest', c))"
  by (cases rest) (auto simp: Let_def iter_none_left split: if_splits)

lemma thousands_not_minus: "accepts thousands ch \<Longrightarrow> ch \<noteq> CHR ''-''"
  by (auto simp: thousands_def seq_def dest: not_minus_digit)

lemma cba_token_shape:
  assumes "tok \<in> set (findall cba_amount_pattern s)"
  shows "\<exists>m. (tok = m \<or> tok = CHR ''-'' # m) \<and> list_all (\<lambda>ch. ch \<noteq> CHR ''-'') m"
proof -
  from assms obtain mt where "mt \<in> set (finditer_from cba_amount_pattern 0 s)" "tok = m_text mt"
    by (auto simp: findall_def finditer_def)
  from finditer_from_origin [OF this(1)] this(2) obtain q rest e r' c tl where
    hd: "mtch cba_amount_pattern (q, rest, []) = (e, r', c) # tl" and tok: "tok = take (e - q) rest"
    by auto
  from hd have "(e, r', c) \<in> set (mtch cba_amount_pattern (q, rest, []))" by simp
  then obtain c0 where "(e, r', c0) \<in> set (mtch (Seq (opt (Chr (Lit (CHR ''-'')))) thousands) (q, rest, []))"
    by (auto simp: cba_amount_pattern_def seq_def)
  then obtain u where u: "u \<in> set (mtch (opt (Chr (Lit (CHR ''-'')))) (q, rest, []))"
    and t: "(e, r', c0) \<in> set (mtch thousands u)"
    by auto
  from mtch_ok [OF t] obtain m where m: "fst (snd u) = m @ r'" "e = fst u + length m"
    "list_all (accepts thousands) m"
    by (auto simp: step_ok_def)
  from m(3) have nm: "list_all (\<lambda>ch. ch \<noteq> CHR ''-'') m"
    by (auto simp: list_all_iff dest: thousands_not_minus)
  from mtch_opt_lit [OF u] show ?thesis
  proof
    assume "u = (q, rest, [])"
    with m tok have "tok = m" by simp
    with nm show ?thesis by blast
  next
    assume "\<exists>rest'. rest = CHR ''-'' # rest' \<and> u = (Suc q, rest', [])"
    then obtain rest' where "rest = CHR ''-'' # rest'" "u = (Suc q, rest', [])" by blast
    with m tok have "tok = CHR ''-'' # m" by simp
    with nm show ?thesis by blast
  qed
qed

lemma cba_token_sign:
  assumes "tok \<in> set (findall cba_amount_pattern s)" and "py_float (remove_commas tok) = Some v"
  shows "(starts_with ''-'' tok \<longrightarrow> v \<le> 0) \<and> (\<not> starts_with ''-'' tok \<longrightarrow> 0 \<le> v)"
proof -
  from cba_token_shape [OF assms(1)] obtain m where
    m: "tok = m \<or> tok = CHR ''-'' # m" and nm: "list_all (\<lambda>ch. ch \<noteq> CHR ''-'') m"
    by blast
  from m show ?thesis
  proof
    assume tm: "tok = m"
    with nm have "\<not> starts_with ''-'' tok"
      by (cases m) auto
    moreover from no_minus_float [OF nm] assms(2) tm have "0 \<le> v" by simp
    ultimately show ?thesis by simp
  next
    assume tm: "tok = CHR ''-'' # m"
    with assms(2) have "v \<le> 0"
      by (simp add: remove_commas_minus py_float_minus)
    with tm show ?thesis by simp
  qed
qed

lemma westpac_amount_not_minus: "accepts westpac_amount_pattern ch \<Longrightarrow> ch \<noteq> CHR ''-''"
  by (auto simp: westpac_amount_pattern_def seq_def dest: not_minus_digit)

lemma westpac_token_nonneg:
  assumes "tok \<in> set (findall westpac_amount_pattern s)" and "py_float (remove_commas tok) = Some v"
  shows "0 \<le> v"
proof -
  from findall_ok [OF assms(1)] have "list_all (\<lambda>ch. ch \<noteq> CHR ''-'') tok"
    by (auto simp: list_all_iff dest: westpac_amount_not_minus)
  from no_minus_float [OF this assms(2)] show ?thesis .
qed

lemma cba_dated_row_amount:
  assumes "cba_dated_row line = Inr (Some (d, desc, a))"
  shows "\<exists>m. re_match cba_date_pattern line = Some m \<and>
           (let amounts = findall cba_amount_pattern (strip (drop (match_end m) line))
            in if amounts = [] then a = 0
               else \<exists>v. py_float (remove_commas (last amounts)) = Some v \<and> a = - v \<and>
                      (starts_with ''-'' (last amounts) \<longrightarrow> v \<le> 0 \<and> 0 \<le> a) \<and>
                      (\<not> starts_with ''-'' (last amounts) \<longrightarrow> 0 \<le> v \<and> a \<le> 0))"
proof -
  from assms obtain m where m: "re_match cba_date_pattern line = Some m"
    by (auto simp: cba_dated_row_def split: option.splits)
  let ?amounts = "findall cba_amount_pattern (strip (drop (match_end m) line))"
  show ?thesis
  proof (cases "?amounts = []")
    case True
    with assms m show ?thesis
      by (auto simp: cba_dated_row_def Let_def)
  next
    case False
    with assms m obtain v where v: "py_float (remove_commas (last ?amounts)) = Some v" "a = - v"
      by (auto simp: cba_dated_row_def Let_def split: option.splits)
    from False have "last ?amounts \<in> set ?amounts" by simp
    from cba_token_sign [OF this v(1)] v False m show ?thesis
      by (auto simp: Let_def)
  qed
qed

lemma westpac_row_amount:
  assumes "westpac_row date_str rest = Inr (Some (d, desc, a))"
  shows "\<exists>v. py_float (remove_commas (last (findall westpac_amount_pattern rest))) = Some v \<and>
           0 \<le> v \<and>
           a = (if str_in ''CRED VOUCHER''
                     (westpac_description rest (last (findall westpac_amount_pattern rest)))
                then v else - v)"
proof -
  let ?amounts = "findall westpac_amount_pattern rest"
  from assms have ne: "?amounts \<noteq> []"
    by (auto simp: westpac_row_def Let_def split: if_splits)
  with assms obtain v where v: "py_float (remove_commas (last ?amounts)) = Some v"
    and a: "a = (if str_in ''CRED VOUCHER'' (westpac_description rest (last ?amounts))
                 then v else - v)"
    by (auto simp: westpac_row_def Let_def split: option.splits if_splits)
  from ne have "last ?amounts \<in> set ?amounts" by simp
  from westpac_token_nonneg [OF this v] v a show ?thesis by blast
qed

lemma thousands_token_nonneg:
  assumes "tok \<in> set (findall thousands s)" and "py_float (remove_commas tok) = Some v"
  shows "0 \<le> v"
proof -
  from findall_ok [OF assms(1)] have "list_all (\<lambda>ch. ch \<noteq> CHR ''-'') tok"
    by (auto simp: list_all_iff dest: thousands_not_minus)
  from no_minus_float [OF this assms(2)] show ?thesis .
qed

lemma py_float_nonempty: "py_float (remove_commas tok) = Some v \<Longrightarrow> tok \<noteq> []"
  by (auto simp: py_float_def remove_commas_def)

section \<open>Runs of whitespace\<close>















section \<open>Rows of the credit card parser\<close>

lemma wcc_step_row:
  assumes "re_match wcc_date_pattern (strip l) = Some m"
    and "strptime_dmy (group_str m 1) = Some dt"
    and "wcc_collect [strip (group_str m 2)] rest = (parts, amounts_line, rest')"
  shows "wcc_step l rest
           = (case wcc_amount (join '' '' parts) (findall thousands amounts_line) of
                Inl e \<Rightarrow> (Inl e, rest')
              | Inr None \<Rightarrow> (Inr None, rest')
              | Inr (Some a) \<Rightarrow> (Inr (Some (strftime_Ymd dt, join '' '' parts, a)), rest'))"
  unfolding wcc_step_def Let_def assms(1) option.case assms(2) assms(3) prod.case
  by (rule refl)

lemma wcc_amount_two:
  "wcc_amount full_description [t1, t2] =
     (if str_in ''Deposit'' full_description \<or> str_in ''Refund'' full_description then
        (if t1 \<noteq> [] then
           (case py_float (remove_commas t1) of
              None \<Rightarrow> Inl ValueError | Some v \<Rightarrow> Inr (Some v))
         else Inr None)
      else
        (if t1 \<noteq> [] then
           (case py_float (remove_commas t1) of
              None \<Rightarrow> Inl ValueError | Some v \<Rightarrow> Inr (Some (- v)))
         else Inr None))"
  by (simp add: wcc_amount_def wcc_slots_def)

lemma wcc_amount_three:
  "wcc_amount full_description [t1, t2, t3] =
     (if t1 \<noteq> [] then
        (case py_float (remove_commas t1) of
           None \<Rightarrow> Inl ValueError | Some v \<Rightarrow> Inr (Some (- v)))
      else if t2 \<noteq> [] then
        (case py_float (remove_commas t2) of
           None \<Rightarrow> Inl ValueError | Some v \<Rightarrow> Inr (Some v))
      else Inr None)"
  by (simp add: wcc_amount_def wcc_slots_def)

lemma mtch_Seq_iff: "t \<in> set (mtch (Seq a b) s) \<longleftrightarrow> (\<exists>u \<in> set (mtch a s). t \<in> set (mtch b u))"
  by simp

lemma mtch_some_digit:
  "u \<in> set (mtch (Rep g (Suc lo) hi (Chr Digit)) (q, rest, c)) \<Longrightarrow> q < fst u"
proof -
  assume u: "u \<in> set (mtch (Rep g (Suc lo) hi (Chr Digit)) (q, rest, c))"
  show ?thesis
  proof (cases "length rest")
    case 0
    with u show ?thesis by simp
  next
    case (Suc n)
    with u obtain xs where
      it: "u \<in> set (iter (mtch (Chr Digit)) g lo (map_option (\<lambda>h. h - 1) hi) n (Suc q, xs, c))"
      by (auto simp: Let_def split: if_splits list.splits)
    have "step_ok (accepts (Chr Digit)) (cap_accepts (Chr Digit)) (Suc q, xs, c) u"
      using it by (rule iter_ok [rotated]) (rule mtch_ok)
    then have "Suc q \<le> fst u"
      by (auto simp: step_ok_def)
    then show ?thesis by simp
  qed
qed

lemma thousands_token_nonempty: "tok \<in> set (findall thousands s) \<Longrightarrow> tok \<noteq> []"
proof -
  assume "tok \<in> set (findall thousands s)"
  then obtain mt where "mt \<in> set (finditer_from thousands 0 s)" "tok = m_text mt"
    by (auto simp: findall_def finditer_def)
  from finditer_from_origin [OF this(1)] this(2) obtain q rest e r' c tl where
    hd: "mtch thousands (q, rest, []) = (e, r', c) # tl" and tok: "tok = take (e - q) rest"
    by auto
  from hd have mem: "(e, r', c) \<in> set (mtch thousands (q, rest, []))" by simp
  have th: "thousands = Seq (times 1 3 Digit)
      (seq [Rep True 0 None (seq [Chr (Lit (CHR '','')), times 3 3 Digit]),
            Chr (Lit (CHR ''.'')), times 2 2 Digit])"
    by (simp add: thousands_def seq_def)
  from mem obtain u where u: "u \<in> set (mtch (times 1 3 Digit) (q, rest, []))"
    and t: "(e, r', c) \<in> set (mtch (seq [Rep True 0 None (seq [Chr (Lit (CHR '','')), times 3 3 Digit]),
      Chr (Lit (CHR ''.'')), times 2 2 Digit]) u)"
    unfolding th mtch_Seq_iff by blast
  from mtch_ok [OF t] have le: "fst u \<le> e"
    by (auto simp: step_ok_def)
  from u have "q < fst u"
    using mtch_some_digit [of u True 0 "Some 3" q rest "[]"] by simp
  moreover from mtch_ok [OF mem] have "e - q \<le> length rest"
    by (auto simp: step_ok_def)
  ultimately show "tok \<noteq> []"
    using le tok by (cases rest) auto
qed

section \<open>Balance-marker rows\<close>

lemma starts_with_append: "starts_with (a @ b) s \<Longrightarrow> starts_with a s"
  by (induction a s rule: starts_with.induct) auto

lemma str_in_append: "str_in (a @ b) s \<Longrightarrow> str_in a s"
  by (induction s) (auto dest: starts_with_append)

lemma opening_balance_has_opening: "str_in ''OPENING BALANCE'' s \<Longrightarrow> str_in ''OPENING'' s"
  using str_in_append [of "''OPENING''" "'' BALANCE''" s] by simp

lemma finditer_from_anchored: "0 < p \<Longrightarrow> finditer_from (Seq Bol r) p s = []"
proof (induction s arbitrary: p)
  case Nil
  then show ?case by (subst finditer_from.simps) simp
next
  case (Cons x xs)
  from Cons.prems Cons.IH [of "Suc p"] show ?case
    by (subst finditer_from.simps) simp
qed

lemma re_search_anchored: "re_search (Seq Bol r) s = re_match (Seq Bol r) s"
proof (cases "mtch (Seq Bol r) (0, s, [])")
  case Nil
  then have "finditer_from (Seq Bol r) 0 s = []"
    by (subst finditer_from.simps) (simp add: finditer_from_anchored split: list.splits)
  with Nil show ?thesis
    by (simp add: re_search_def re_match_def finditer_def)
next
  case (Cons st rest)
  obtain e r' c where st: "st = (e, r', c)" by (cases st)
  with Cons have "\<exists>tl. finditer_from (Seq Bol r) 0 s
      = \<lparr>m_start = 0, m_end = e, m_text = take e s, m_caps = c\<rparr> # tl"
    by (subst finditer_from.simps) simp
  with Cons st show ?thesis
    by (auto simp: re_search_def re_match_def finditer_def)
qed

lemma cba_date_search: "re_search cba_date_pattern line = re_match cba_date_pattern line"
  unfolding cba_date_pattern_def seq_def by (simp add: re_search_anchored del: mtch.simps)

lemma scan_lines_extends:
  "scan_lines body uuid xs ts = Inr ts' \<Longrightarrow> \<exists>more. ts' = ts @ more"
proof (induction xs arbitrary: ts)
  case Nil
  then show ?case by simp
next
  case (Cons x xs)
  show ?case
  proof (cases "body x")
    case (Inl e)
    with Cons.prems show ?thesis by simp
  next
    case (Inr res)
    show ?thesis
    proof (cases res)
      case None
      with Inr Cons.prems Cons.IH [of ts] show ?thesis by simp
    next
      case (Some r)
      with Inr Cons.prems have "scan_lines body uuid xs (append_txn uuid ts r) = Inr ts'"
        by simp
      from Cons.IH [OF this] show ?thesis
        by (cases r) (auto simp: append_txn_def)
    qed
  qed
qed

lemma scan_lines_row_at:
  assumes "body l = Inr (Some (d, desc, a))"
    and "scan_lines body uuid (xs @ l # ys) [] = Inr ts"
  shows "\<exists>ts1 more. scan_lines body uuid xs [] = Inr ts1 \<and>
           ts = ts1 @ \<lparr>tid = uuid (length ts1), date = d, description = desc, amount = a\<rparr> # more"
proof -
  from assms(2) obtain ts1 where 1: "scan_lines body uuid xs [] = Inr ts1"
    and 2: "scan_lines body uuid (l # ys) ts1 = Inr ts"
    by (auto simp: scan_lines_append split: sum.splits)
  from 2 assms(1) have "scan_lines body uuid ys
      (ts1 @ [\<lparr>tid = uuid (length ts1), date = d, description = desc, amount = a\<rparr>]) = Inr ts"
    by (simp add: append_txn_def)
  from scan_lines_extends [OF this] 1 show ?thesis by auto
qed

text \<open>
  A line of a CBA statement that holds \<open>CLOSING BALANCE\<close> and not \<open>OPENING BALANCE\<close>,
  and is labelled \<open>OPENING BALANCE\<close> all the same, because the word \<open>OPENING\<close> occurs in
  it; and an opening balance line that carries a date the date pattern accepts, but not
  at its start, and gets the empty date.
\<close>

theorem balance_label_and_date_fail:
  "cba_is_balance (strip ''CLOSING BALANCE AFTER REOPENING 9.00'') \<and>
   str_in ''CLOSING BALANCE'' (strip ''CLOSING BALANCE AFTER REOPENING 9.00'') \<and>
   \<not> str_in ''OPENING BALANCE'' (strip ''CLOSING BALANCE AFTER REOPENING 9.00'') \<and>
   cba_line ''CLOSING BALANCE AFTER REOPENING 9.00'' = Inr (Some ([], ''OPENING BALANCE'', 0)) \<and>
   cba_is_balance (strip ''OPENING BALANCE 1 January 2024'') \<and>
   re_match cba_date_pattern ''1 January 2024'' \<noteq> None \<and>
   cba_line ''OPENING BALANCE 1 January 2024'' = Inr (Some ([], ''OPENING BALANCE'', 0)) \<and>
   cba_line ''1 January 2024 OPENING BALANCE'' = Inr (Some (''2024-01-01'', ''OPENING BALANCE'', 0))"
proof -
  have a: "cba_is_balance (strip ''CLOSING BALANCE AFTER REOPENING 9.00'')"
    by code_simp
  have b: "str_in ''CLOSING BALANCE'' (strip ''CLOSING BALANCE AFTER REOPENING 9.00'')"
    by code_simp
  have c: "\<not> str_in ''OPENING BALANCE'' (strip ''CLOSING BALANCE AFTER REOPENING 9.00'')"
    by code_simp
  have d: "cba_line ''CLOSING BALANCE AFTER REOPENING 9.00''
             = Inr (Some ([], ''OPENING BALANCE'', 0))"
    by code_simp
  have e: "cba_is_balance (strip ''OPENING BALANCE 1 January 2024'')"
    by code_simp
  have f: "re_match cba_date_pattern ''1 January 2024'' \<noteq> None"
    by code_simp
  have g: "cba_line ''OPENING BALANCE 1 January 2024'' = Inr (Some ([], ''OPENING BALANCE'', 0))"
    by code_simp
  have h: "cba_line ''1 January 2024 OPENING BALANCE''
             = Inr (Some (''2024-01-01'', ''OPENING BALANCE'', 0))"
    by code_simp
  show ?thesis
    by (intro conjI) (rule a, rule b, rule c, rule d, rule e, rule f, rule g, rule h)
qed

text \<open>
  Claim C7, as amended. A line of the CBA statement is a balance line when, trimmed, it
  contains \<open>OPENING BALANCE\<close> or \<open>CLOSING BALANCE\<close>. Every such line gives a transaction,
  which stands in the batch right after the transactions of the lines before it. Its
  amount is 0 whatever numbers the line holds. Its description is \<open>OPENING BALANCE\<close>
  when the line contains \<open>OPENING BALANCE\<close>, and \<open>CLOSING BALANCE\<close> when the word
  \<open>OPENING\<close> occurs nowhere in the line (which then contains \<open>CLOSING BALANCE\<close>). Its
  date is built from the date the line starts with, as written, and is the empty string
  when the line does not start with a date.
\<close>

theorem balance_marker_row:
  assumes "cba_is_balance (strip raw)"
  shows "\<exists>d label.
           cba_line raw = Inr (Some (d, label, 0)) \<and>
           (str_in ''OPENING BALANCE'' (strip raw) \<longrightarrow> label = ''OPENING BALANCE'') \<and>
           (\<not> str_in ''OPENING'' (strip raw) \<longrightarrow>
              str_in ''CLOSING BALANCE'' (strip raw) \<and> label = ''CLOSING BALANCE'') \<and>
           d = (case re_match cba_date_pattern (strip raw) of
                  Some m \<Rightarrow> group_str m 3 @ ''-'' @ get_or MONTH_MAP (group_str m 2) ''01''
                              @ ''-'' @ zfill 2 (group_str m 1)
                | None \<Rightarrow> []) \<and>
           (\<forall>ts. cba_parse uuid (xs @ raw # ys) = Inr ts \<longrightarrow>
              (\<exists>ts1 more. cba_parse uuid xs = Inr ts1 \<and>
                 ts = ts1 @ \<lparr>tid = uuid (length ts1), date = d, description = label,
                              amount = 0\<rparr> # more))"
proof -
  let ?line = "strip raw"
  let ?d = "case re_match cba_date_pattern ?line of
              Some m \<Rightarrow> group_str m 3 @ ''-'' @ get_or MONTH_MAP (group_str m 2) ''01''
                          @ ''-'' @ zfill 2 (group_str m 1)
            | None \<Rightarrow> []"
  let ?label = "if str_in ''OPENING'' ?line then ''OPENING BALANCE'' else ''CLOSING BALANCE''"
  have row: "cba_line raw = Inr (Some (?d, ?label, 0))"
    using assms
    by (simp add: cba_line_def cba_balance_row_def Let_def cba_date_search cba_date_iso_def
             split: option.splits)
  have op: "str_in ''OPENING BALANCE'' ?line \<longrightarrow> ?label = ''OPENING BALANCE''"
    using opening_balance_has_opening [of ?line] by simp
  have cl: "\<not> str_in ''OPENING'' ?line \<longrightarrow>
              str_in ''CLOSING BALANCE'' ?line \<and> ?label = ''CLOSING BALANCE''"
    using assms opening_balance_has_opening [of ?line] by (auto simp: cba_is_balance_def)
  have batch: "\<forall>ts. cba_parse uuid (xs @ raw # ys) = Inr ts \<longrightarrow>
              (\<exists>ts1 more. cba_parse uuid xs = Inr ts1 \<and>
                 ts = ts1 @ \<lparr>tid = uuid (length ts1), date = ?d, description = ?label,
                              amount = 0\<rparr> # more)"
    unfolding cba_parse_def
    using scan_lines_row_at [of cba_line raw ?d ?label 0 uuid xs ys] row by blast
  from row op cl batch show ?thesis by blast
qed

theorem balance_marker_row_witness:
  "cba_is_balance (strip ''1 January 2024 OPENING BALANCE $1,234.56 CR'') \<and>
   cba_line ''1 January 2024 OPENING BALANCE $1,234.56 CR''
     = Inr (Some (''2024-01-01'', ''OPENING BALANCE'', 0)) \<and>
   cba_is_balance (strip ''CLOSING BALANCE 12.00'') \<and>
   cba_line ''CLOSING BALANCE 12.00'' = Inr (Some ([], ''CLOSING BALANCE'', 0)) \<and>
   cba_parse (\<lambda>k. ''id'') ([''2 January 2024 X 5.00''] @ ''CLOSING BALANCE 12.00'' # [])
     = Inr [\<lparr>tid = ''id'', date = ''2024-01-02'', description = ''X'', amount = - 5\<rparr>,
            \<lparr>tid = ''id'', date = [], description = ''CLOSING BALANCE'', amount = 0\<rparr>]"
proof -
  let ?u = "\<lambda>k::nat. ''id''"
  let ?op = "''1 January 2024 OPENING BALANCE $1,234.56 CR''"
  let ?cl = "''CLOSING BALANCE 12.00''"
  let ?x = "''2 January 2024 X 5.00''"
  have h1: "cba_is_balance (strip ?op)"
    by code_simp
  have h2: "cba_is_balance (strip ?cl)"
    by code_simp
  have d1: "(case re_match cba_date_pattern (strip ?op) of
               Some m \<Rightarrow> group_str m 3 @ ''-'' @ get_or MONTH_MAP (group_str m 2) ''01''
                           @ ''-'' @ zfill 2 (group_str m 1)
             | None \<Rightarrow> []) = ''2024-01-01''"
    by code_simp
  have d2: "(case re_match cba_date_pattern (strip ?cl) of
               Some m \<Rightarrow> group_str m 3 @ ''-'' @ get_or MONTH_MAP (group_str m 2) ''01''
                           @ ''-'' @ zfill 2 (group_str m 1)
             | None \<Rightarrow> []) = []"
    by code_simp
  have o1: "str_in ''OPENING BALANCE'' (strip ?op)"
    by code_simp
  have o2: "\<not> str_in ''OPENING'' (strip ?cl)"
    by code_simp
  have run: "cba_parse ?u ([?x] @ ?cl # [])
     = Inr [\<lparr>tid = ''id'', date = ''2024-01-02'', description = ''X'', amount = - 5\<rparr>,
            \<lparr>tid = ''id'', date = [], description = ''CLOSING BALANCE'', amount = 0\<rparr>]"
    by code_simp
  have r1: "cba_line ?op = Inr (Some (''2024-01-01'', ''OPENING BALANCE'', 0))"
    using balance_marker_row [OF h1, of ?u "[]" "[]"] o1 unfolding d1 by auto
  have r2: "cba_line ?cl = Inr (Some ([], ''CLOSING BALANCE'', 0))"
    using balance_marker_row [OF h2, of ?u "[?x]" "[]"] o2 unfolding d2 by auto
  show ?thesis
    by (intro conjI) (rule h1, rule r1, rule h2, rule r2, rule run)
qed

section \<open>Identifiers and determinism\<close>

lemma content_append_txn: "map content (append_txn uuid ts r) = map content ts @ [r]"
  by (cases r) (simp add: append_txn_def content_def)

lemma length_append_txn: "length (append_txn uuid ts r) = Suc (length ts)"
  by (cases r) (simp add: append_txn_def)

lemma tid_append_txn: "map tid (append_txn uuid ts r) = map tid ts @ [uuid (length ts)]"
  by (cases r) (simp add: append_txn_def)

lemma ids_append_txn:
  "map tid ts = map uuid [0..<length ts] \<Longrightarrow>
   map tid (append_txn uuid ts r) = map uuid [0..<length (append_txn uuid ts r)]"
  by (simp add: tid_append_txn length_append_txn)

lemma scan_lines_content:
  "map content ts = map content ts' \<Longrightarrow>
   batch_content (scan_lines body uuid xs ts) = batch_content (scan_lines body uuid' xs ts')"
proof (induction xs arbitrary: ts ts')
  case Nil
  then show ?case by (simp add: batch_content_def)
next
  case (Cons x xs)
  show ?case
  proof (cases "body x")
    case (Inl e)
    then show ?thesis by (simp add: batch_content_def)
  next
    case (Inr res)
    show ?thesis
    proof (cases res)
      case None
      with Inr Cons show ?thesis by simp
    next
      case (Some r)
      have "map content (append_txn uuid ts r) = map content (append_txn uuid' ts' r)"
        using Cons.prems by (simp add: content_append_txn)
      from Cons.IH [OF this] Inr Some show ?thesis by simp
    qed
  qed
qed

lemma scan_lines_ids:
  "scan_lines body uuid xs ts = Inr ts' \<Longrightarrow> map tid ts = map uuid [0..<length ts] \<Longrightarrow>
   map tid ts' = map uuid [0..<length ts']"
proof (induction xs arbitrary: ts)
  case Nil
  then show ?case by simp
next
  case (Cons x xs)
  show ?case
  proof (cases "body x")
    case (Inl e)
    with Cons.prems show ?thesis by simp
  next
    case (Inr res)
    show ?thesis
    proof (cases res)
      case None
      with Inr Cons show ?thesis by simp
    next
      case (Some r)
      with Inr Cons.prems have "scan_lines body uuid xs (append_txn uuid ts r) = Inr ts'"
        by simp
      from Cons.IH [OF this ids_append_txn [OF Cons.prems(2)]] show ?thesis .
    qed
  qed
qed

lemma batch_content_Nil:
  "batch_content a = batch_content b \<Longrightarrow> a = Inr [] \<Longrightarrow> b = Inr []"
  by (cases b) (auto simp: batch_content_def)

lemma local_parse_content:
  "batch_content (local_parse uuid lines) = batch_content (local_parse uuid' lines)"
proof -
  have p: "batch_content (scan_lines local_primary_line uuid lines [])
         = batch_content (scan_lines local_primary_line uuid' lines [])"
    by (rule scan_lines_content) simp
  have f: "batch_content (scan_lines local_fallback_line uuid lines [])
         = batch_content (scan_lines local_fallback_line uuid' lines [])"
    by (rule scan_lines_content) simp
  show ?thesis
  proof (cases "scan_lines local_primary_line uuid lines []")
    case (Inl e)
    with p have "scan_lines local_primary_line uuid' lines [] = Inl e"
      by (cases "scan_lines local_primary_line uuid' lines []") (auto simp: batch_content_def)
    with Inl show ?thesis by (simp add: local_parse_def)
  next
    case (Inr ts)
    with p obtain ts' where r': "scan_lines local_primary_line uuid' lines [] = Inr ts'"
      and eq: "map content ts = map content ts'"
      by (cases "scan_lines local_primary_line uuid' lines []") (auto simp: batch_content_def)
    from eq have "ts = [] \<longleftrightarrow> ts' = []"
      by (metis map_is_Nil_conv)
    with Inr r' f eq show ?thesis
      by (auto simp: local_parse_def batch_content_def)
  qed
qed

lemma local_parse_ids:
  "local_parse uuid lines = Inr ts \<Longrightarrow> map tid ts = map uuid [0..<length ts]"
  by (auto simp: local_parse_def split: sum.splits if_splits dest: scan_lines_ids)

lemma amex_loop_content:
  "map content ts = map content ts' \<Longrightarrow>
   batch_content (amex_loop uuid xs ts) = batch_content (amex_loop uuid' xs ts')"
proof (induction xs arbitrary: ts ts')
  case Nil
  then show ?case by (simp add: batch_content_def)
next
  case (Cons x xs)
  show ?case
  proof (cases "amex_row x xs")
    case (Inl e)
    then show ?thesis by (simp add: batch_content_def)
  next
    case (Inr res)
    show ?thesis
    proof (cases res)
      case None
      with Inr Cons show ?thesis by simp
    next
      case (Some r)
      have "map content (append_txn uuid ts r) = map content (append_txn uuid' ts' r)"
        using Cons.prems by (simp add: content_append_txn)
      from Cons.IH [OF this] Inr Some show ?thesis by simp
    qed
  qed
qed

lemma amex_loop_ids:
  "amex_loop uuid xs ts = Inr ts' \<Longrightarrow> map tid ts = map uuid [0..<length ts] \<Longrightarrow>
   map tid ts' = map uuid [0..<length ts']"
proof (induction xs arbitrary: ts)
  case Nil
  then show ?case by simp
next
  case (Cons x xs)
  show ?case
  proof (cases "amex_row x xs")
    case (Inl e)
    with Cons.prems show ?thesis by simp
  next
    case (Inr res)
    show ?thesis
    proof (cases res)
      case None
      with Inr Cons show ?thesis by simp
    next
      case (Some r)
      with Inr Cons.prems have "amex_loop uuid xs (append_txn uuid ts r) = Inr ts'"
        by simp
      from Cons.IH [OF this ids_append_txn [OF Cons.prems(2)]] show ?thesis .
    qed
  qed
qed

lemma wcc_loop_content:
  "map content ts = map content ts' \<Longrightarrow>
   batch_content (wcc_loop uuid xs ts) = batch_content (wcc_loop uuid' xs ts')"
proof (induction xs arbitrary: ts ts' rule: length_induct)
  case (1 xs)
  show ?case
  proof (cases xs)
    case Nil
    with 1 show ?thesis by (simp add: batch_content_def)
  next
    case (Cons l rest)
    obtain out rest' where st: "wcc_step l rest = (out, rest')"
      by (cases "wcc_step l rest")
    then have len: "length rest' < length xs"
      using wcc_step_length [OF st] Cons by simp
    show ?thesis
    proof (cases out)
      case (Inl e)
      with st Cons show ?thesis by (simp add: batch_content_def)
    next
      case (Inr res)
      show ?thesis
      proof (cases res)
        case None
        with Inr st Cons 1 len show ?thesis by simp
      next
        case (Some r)
        have "map content (append_txn uuid ts r) = map content (append_txn uuid' ts' r)"
          using 1(2) by (simp add: content_append_txn)
        with 1(1) len have "batch_content (wcc_loop uuid rest' (append_txn uuid ts r))
           = batch_content (wcc_loop uuid' rest' (append_txn uuid' ts' r))"
          by blast
        with Inr Some st Cons show ?thesis by simp
      qed
    qed
  qed
qed

lemma wcc_loop_ids:
  "wcc_loop uuid xs ts = Inr ts' \<Longrightarrow> map tid ts = map uuid [0..<length ts] \<Longrightarrow>
   map tid ts' = map uuid [0..<length ts']"
proof (induction uuid xs ts rule: wcc_loop.induct)
  case (1 uuid ts)
  then show ?case by simp
next
  case (2 uuid l rest ts)
  obtain out rest' where st: "wcc_step l rest = (out, rest')"
    by (cases "wcc_step l rest")
  show ?case
  proof (cases out)
    case (Inl e)
    with st 2 show ?thesis by simp
  next
    case (Inr res)
    show ?thesis
    proof (cases res)
      case None
      with Inr st 2 show ?thesis by simp
    next
      case (Some r)
      with Inr st 2(3) have "wcc_loop uuid rest' (append_txn uuid ts r) = Inr ts'"
        by simp
      from 2(2) [OF st [symmetric] Inr Some this ids_append_txn [OF 2(4)]] show ?thesis .
    qed
  qed
qed

text \<open>
  Claim C9. The identifiers come from \<open>uuid4\<close>, modelled as the sequence \<open>uuid\<close> of its
  results. Two runs of a parser on the same lines, with any two sequences of identifiers,
  either both fail with the same error or give batches with the same dates, descriptions
  and amounts in the same order. The identifier of transaction number \<open>k\<close> of a batch is
  \<open>uuid k\<close>: it is taken from the generator and not computed from the transaction.
\<close>

theorem deterministic_modulo_id:
  "batch_content (local_parse uuid lines) = batch_content (local_parse uuid' lines) \<and>
   batch_content (amex_parse uuid lines) = batch_content (amex_parse uuid' lines) \<and>
   batch_content (cba_parse uuid lines) = batch_content (cba_parse uuid' lines) \<and>
   batch_content (westpac_parse uuid lines) = batch_content (westpac_parse uuid' lines) \<and>
   batch_content (wcc_parse uuid lines) = batch_content (wcc_parse uuid' lines) \<and>
   batch_content (anz_parse uuid text) = batch_content (anz_parse uuid' text) \<and>
   (local_parse uuid lines = Inr ts \<longrightarrow> map tid ts = map uuid [0..<length ts]) \<and>
   (amex_parse uuid lines = Inr ts \<longrightarrow> map tid ts = map uuid [0..<length ts])"
  by (simp add: local_parse_content local_parse_ids amex_parse_def cba_parse_def
        westpac_parse_def wcc_parse_def anz_parse_def amex_loop_content amex_loop_ids
        scan_lines_content wcc_loop_content)

theorem deterministic_modulo_id_witness:
  "local_parse (\<lambda>k. replicate (Suc k) (CHR ''a'')) [''3 Jun DR COFFEE 4.50 120.00'', ''x'', ''4 Jul CR PAY 7.00'']
     = Inr [\<lparr>tid = ''a'', date = ''2023-06-03'', description = ''COFFEE'', amount = - (9 / 2)\<rparr>,
            \<lparr>tid = ''aa'', date = ''2023-07-04'', description = ''PAY'', amount = - 7\<rparr>] \<and>
   map tid [\<lparr>tid = ''a'', date = ''2023-06-03'', description = ''COFFEE'', amount = - (9 / 2)\<rparr>,
            \<lparr>tid = ''aa'', date = ''2023-07-04'', description = ''PAY'', amount = - 7\<rparr>]
     = map (\<lambda>k. replicate (Suc k) (CHR ''a''))
         [0..<length
            [\<lparr>tid = ''a'', date = ''2023-06-03'', description = ''COFFEE'', amount = - (9 / 2)\<rparr>,
             \<lparr>tid = ''aa'', date = ''2023-07-04'', description = ''PAY'', amount = - 7\<rparr>]] \<and>
   batch_content (local_parse (\<lambda>k. replicate (Suc k) (CHR ''b'')) [''3 Jun DR COFFEE 4.50 120.00'', ''x'', ''4 Jul CR PAY 7.00''])
     = Inr [(''2023-06-03'', ''COFFEE'', - (9 / 2)), (''2023-07-04'', ''PAY'', - 7)]"
proof -
  let ?u = "\<lambda>k. replicate (Suc k) (CHR ''a'')"
  let ?v = "\<lambda>k. replicate (Suc k) (CHR ''b'')"
  let ?L = "[''3 Jun DR COFFEE 4.50 120.00'', ''x'', ''4 Jul CR PAY 7.00'']"
  let ?T = "[\<lparr>tid = ''a'', date = ''2023-06-03'', description = ''COFFEE'', amount = - (9 / 2)\<rparr>,
            \<lparr>tid = ''aa'', date = ''2023-07-04'', description = ''PAY'', amount = - 7\<rparr>]"
  have run: "local_parse ?u ?L = Inr ?T"
    by code_simp
  have ids: "map tid ?T = map ?u [0..<length ?T]"
    using deterministic_modulo_id [of ?u ?L ?v "[]" ?T] run by blast
  have same: "batch_content (local_parse ?v ?L) = batch_content (local_parse ?u ?L)"
    using deterministic_modulo_id [of ?u ?L ?v "[]" ?T] by simp
  have c: "batch_content (Inr ?T) = Inr [(''2023-06-03'', ''COFFEE'', - (9 / 2)), (''2023-07-04'', ''PAY'', - 7)]"
    by (simp add: batch_content_def content_def)
  from same c have same': "batch_content (local_parse ?v ?L)
      = Inr [(''2023-06-03'', ''COFFEE'', - (9 / 2)), (''2023-07-04'', ''PAY'', - 7)]"
    by (simp only: run)
  show ?thesis
    by (intro conjI) (rule run, rule ids, rule same')
qed

section \<open>The pages the Westpac parser reads\<close>

lemma full_text_append: "full_text (pages @ pages') = full_text pages @ full_text pages'"
  by (simp add: full_text_def)

lemma full_text_page: "full_text (text # pages) = (if text = [] then [] else text @ [CHR 0x0A]) @ full_text pages"
  by (simp add: full_text_def)

text \<open>
  Claim C10. The Westpac parser reads the pages at the zero-based indices 2, 3 and 4, in
  this order, and no other page: its batch is the batch of the lines of these three pages,
  so that in a document of six pages with one row on each page the rows of the third,
  fourth and fifth page are the transactions, in page order. Two documents that agree at
  these three indices give the same result: the first two pages can be replaced by anything,
  the pages after the fifth can be dropped, and a document of at most two pages gives the
  empty batch. The other five parsers read every page: the text they scan holds the text
  of every page that has text, in page order, and a row on the second page of a document
  is a transaction of their batch, as is a row on the first page, where the Westpac
  parser finds nothing.
\<close>

theorem westpac_pages_2_3_4:
  "westpac_main uuid pages
     = westpac_parse uuid (westpac_page_lines pages 2 @ westpac_page_lines pages 3 @
                           westpac_page_lines pages 4) \<and>
   westpac_main uuid [''05 Jan 24 A 1.00'', ''05 Jan 24 B 2.00'', ''05 Jan 24 C 3.00'',
                      ''05 Jan 24 D 4.00'', ''05 Jan 24 E 5.00'', ''05 Jan 24 F 6.00'']
     = Inr [\<lparr>tid = uuid 0, date = ''2024-01-05'', description = ''C'', amount = - 3\<rparr>,
            \<lparr>tid = uuid 1, date = ''2024-01-05'', description = ''D'', amount = - 4\<rparr>,
            \<lparr>tid = uuid 2, date = ''2024-01-05'', description = ''E'', amount = - 5\<rparr>] \<and>
   (same_page pages pages' 2 \<and> same_page pages pages' 3 \<and> same_page pages pages' 4
      \<longrightarrow> westpac_main uuid pages = westpac_main uuid pages') \<and>
   westpac_main uuid (p0 # p1 # rest) = westpac_main uuid (q0 # q1 # rest) \<and>
   westpac_main uuid (take 5 pages) = westpac_main uuid pages \<and>
   (length pages \<le> 2 \<longrightarrow> westpac_main uuid pages = Inr []) \<and>
   westpac_main uuid [''05 Jan 24 X 4.50''] = Inr [] \<and>
   westpac_main uuid [[], [], ''05 Jan 24 X 4.50'']
     = Inr [\<lparr>tid = uuid 0, date = ''2024-01-05'', description = ''X'', amount = - (9 / 2)\<rparr>] \<and>
   full_text (pages @ pages') = full_text pages @ full_text pages' \<and>
   full_text (text # pages)
     = (if text = [] then [] else text @ [CHR 0x0A]) @ full_text pages \<and>
   local_main uuid pages = local_parse uuid (splitlines (full_text pages)) \<and>
   wcc_main uuid pages = wcc_parse uuid (splitlines (full_text pages)) \<and>
   amex_main uuid pages = amex_parse uuid (splitlines (full_text pages)) \<and>
   anz_main uuid pages = anz_parse uuid (full_text pages) \<and>
   cba_main uuid (pages @ pages')
     = (case cba_main uuid pages of
          Inl e \<Rightarrow> Inl e
        | Inr ts \<Rightarrow> scan_lines cba_line uuid
                     (concat (map splitlines (filter (\<lambda>text. text \<noteq> []) pages'))) ts) \<and>
   cba_main uuid [''1 January 2024 X 5.00'', ''2 January 2024 Y 6.00'']
     = Inr [\<lparr>tid = uuid 0, date = ''2024-01-01'', description = ''X'', amount = - 5\<rparr>,
            \<lparr>tid = uuid 1, date = ''2024-01-02'', description = ''Y'', amount = - 6\<rparr>] \<and>
   local_main uuid [''3 Jun DR COFFEE 4.50 120.00'', ''4 Jun DR TEA 3.00 117.00'']
     = Inr [\<lparr>tid = uuid 0, date = ''2023-06-03'', description = ''COFFEE'',
             amount = - (9 / 2)\<rparr>,
            \<lparr>tid = uuid 1, date = ''2023-06-04'', description = ''TEA'', amount = - 3\<rparr>] \<and>
   wcc_main uuid [''01/02/24 A'', ''10.00 90.00'', ''02/02/24 B'', ''3.00 87.00'']
     = Inr [\<lparr>tid = uuid 0, date = ''2024-02-01'', description = ''A'', amount = - 10\<rparr>,
            \<lparr>tid = uuid 1, date = ''2024-02-02'', description = ''B'', amount = - 3\<rparr>] \<and>
   anz_main uuid [''01/02/2024 01/02/2024 1234 COFFEE SHOP 4.50 120.00'',
                  ''02/02/2024 02/02/2024 1234 TEA 3.00 117.00'']
     = Inr [\<lparr>tid = uuid 0, date = ''2024-02-01'', description = ''COFFEE SHOP'',
             amount = - (9 / 2)\<rparr>,
            \<lparr>tid = uuid 1, date = ''2024-02-02'', description = ''TEA'', amount = - 3\<rparr>] \<and>
   amex_main uuid [''May28 TRANSPORTFORNSWTRAVEL SYDNEY 2.24'', ''May29 TEA 3.00'']
     = Inr [\<lparr>tid = uuid 0, date = ''2025-05-28'',
             description = ''TRANSPORTFORNSWTRAVEL SYDNEY'', amount = - (56 / 25)\<rparr>,
            \<lparr>tid = uuid 1, date = ''2025-05-29'', description = ''TEA'', amount = - 3\<rparr>]"
proof -
  have e: "westpac_main uuid pages
     = westpac_parse uuid (westpac_page_lines pages 2 @ westpac_page_lines pages 3 @
                           westpac_page_lines pages 4)"
    by (simp add: westpac_main_def)
  have six: "westpac_main uuid [''05 Jan 24 A 1.00'', ''05 Jan 24 B 2.00'', ''05 Jan 24 C 3.00'',
                      ''05 Jan 24 D 4.00'', ''05 Jan 24 E 5.00'', ''05 Jan 24 F 6.00'']
     = Inr [\<lparr>tid = uuid 0, date = ''2024-01-05'', description = ''C'', amount = - 3\<rparr>,
            \<lparr>tid = uuid 1, date = ''2024-01-05'', description = ''D'', amount = - 4\<rparr>,
            \<lparr>tid = uuid 2, date = ''2024-01-05'', description = ''E'', amount = - 5\<rparr>]"
    by code_simp
  have a: "same_page pages pages' 2 \<and> same_page pages pages' 3 \<and> same_page pages pages' 4
      \<longrightarrow> westpac_main uuid pages = westpac_main uuid pages'"
    by (auto simp: westpac_main_def same_page_def westpac_page_lines_def Let_def
             split: if_splits)
  have b: "westpac_main uuid (p0 # p1 # rest) = westpac_main uuid (q0 # q1 # rest)"
    by (simp add: westpac_main_def westpac_page_lines_def Let_def eval_nat_numeral)
  have c: "westpac_main uuid (take 5 pages) = westpac_main uuid pages"
    by (simp add: westpac_main_def westpac_page_lines_def Let_def)
  have d: "length pages \<le> 2 \<longrightarrow> westpac_main uuid pages = Inr []"
    by (simp add: westpac_main_def westpac_page_lines_def Let_def westpac_parse_def)
  have t1: "westpac_main uuid [''05 Jan 24 X 4.50''] = Inr []"
    by code_simp
  have t2: "westpac_main uuid [[], [], ''05 Jan 24 X 4.50'']
     = Inr [\<lparr>tid = uuid 0, date = ''2024-01-05'', description = ''X'', amount = - (9 / 2)\<rparr>]"
    by code_simp
  have f1: "full_text (pages @ pages') = full_text pages @ full_text pages'"
    by (rule full_text_append)
  have f2: "full_text (text # pages)
     = (if text = [] then [] else text @ [CHR 0x0A]) @ full_text pages"
    by (rule full_text_page)
  have m1: "local_main uuid pages = local_parse uuid (splitlines (full_text pages))"
    by (rule local_main_def)
  have m2: "wcc_main uuid pages = wcc_parse uuid (splitlines (full_text pages))"
    by (rule wcc_main_def)
  have m3: "amex_main uuid pages = amex_parse uuid (splitlines (full_text pages))"
    by (rule amex_main_def)
  have m4: "anz_main uuid pages = anz_parse uuid (full_text pages)"
    by (rule anz_main_def)
  have m5: "cba_main uuid (pages @ pages')
     = (case cba_main uuid pages of
          Inl e \<Rightarrow> Inl e
        | Inr ts \<Rightarrow> scan_lines cba_line uuid
                     (concat (map splitlines (filter (\<lambda>text. text \<noteq> []) pages'))) ts)"
    by (simp add: cba_main_def cba_parse_def scan_lines_append)
  have t3: "cba_main uuid [''1 January 2024 X 5.00'', ''2 January 2024 Y 6.00'']
     = Inr [\<lparr>tid = uuid 0, date = ''2024-01-01'', description = ''X'', amount = - 5\<rparr>,
            \<lparr>tid = uuid 1, date = ''2024-01-02'', description = ''Y'', amount = - 6\<rparr>]"
    by code_simp
  have t4: "local_main uuid [''3 Jun DR COFFEE 4.50 120.00'', ''4 Jun DR TEA 3.00 117.00'']
     = Inr [\<lparr>tid = uuid 0, date = ''2023-06-03'', description = ''COFFEE'',
             amount = - (9 / 2)\<rparr>,
            \<lparr>tid = uuid 1, date = ''2023-06-04'', description = ''TEA'', amount = - 3\<rparr>]"
    by code_simp
  have t5: "wcc_main uuid [''01/02/24 A'', ''10.00 90.00'', ''02/02/24 B'', ''3.00 87.00'']
     = Inr [\<lparr>tid = uuid 0, date = ''2024-02-01'', description = ''A'', amount = - 10\<rparr>,
            \<lparr>tid = uuid 1, date = ''2024-02-02'', description = ''B'', amount = - 3\<rparr>]"
    by code_simp
  have t6: "anz_main uuid [''01/02/2024 01/02/2024 1234 COFFEE SHOP 4.50 120.00'',
                  ''02/02/2024 02/02/2024 1234 TEA 3.00 117.00'']
     = Inr [\<lparr>tid = uuid 0, date = ''2024-02-01'', description = ''COFFEE SHOP'',
             amount = - (9 / 2)\<rparr>,
            \<lparr>tid = uuid 1, date = ''2024-02-02'', description = ''TEA'', amount = - 3\<rparr>]"
    by code_simp
  have t7: "amex_main uuid [''May28 TRANSPORTFORNSWTRAVEL SYDNEY 2.24'', ''May29 TEA 3.00'']
     = Inr [\<lparr>tid = uuid 0, date = ''2025-05-28'',
             description = ''TRANSPORTFORNSWTRAVEL SYDNEY'', amount = - (56 / 25)\<rparr>,
            \<lparr>tid = uuid 1, date = ''2025-05-29'', description = ''TEA'', amount = - 3\<rparr>]"
    by code_simp
  show ?thesis
    by (intro conjI) (rule e, rule six, rule a, rule b, rule c, rule d, rule t1, rule t2,
        rule f1, rule f2, rule m1, rule m2, rule m3, rule m4, rule m5, rule t3, rule t4,
        rule t5, rule t6, rule t7)
qed

theorem westpac_pages_2_3_4_witness:
  "same_page [''05 Jan 24 A 4.50'', ''05 Jan 24 B 4.50'', ''05 Jan 24 C 4.50'', [], [],
              ''05 Jan 24 F 4.50'']
             [[], ''x'', ''05 Jan 24 C 4.50'', [], []] 2 \<and>
   same_page [''05 Jan 24 A 4.50'', ''05 Jan 24 B 4.50'', ''05 Jan 24 C 4.50'', [], [],
              ''05 Jan 24 F 4.50'']
             [[], ''x'', ''05 Jan 24 C 4.50'', [], []] 3 \<and>
   same_page [''05 Jan 24 A 4.50'', ''05 Jan 24 B 4.50'', ''05 Jan 24 C 4.50'', [], [],
              ''05 Jan 24 F 4.50'']
             [[], ''x'', ''05 Jan 24 C 4.50'', [], []] 4 \<and>
   westpac_main (\<lambda>k. ''id'')
       [''05 Jan 24 A 4.50'', ''05 Jan 24 B 4.50'', ''05 Jan 24 C 4.50'', [], [],
        ''05 Jan 24 F 4.50'']
     = westpac_main (\<lambda>k. ''id'') [[], ''x'', ''05 Jan 24 C 4.50'', [], []] \<and>
   westpac_main (\<lambda>k. ''id'') [[], ''x'', ''05 Jan 24 C 4.50'', [], []]
     = Inr [\<lparr>tid = ''id'', date = ''2024-01-05'', description = ''C'', amount = - (9 / 2)\<rparr>] \<and>
   length [''05 Jan 24 A 4.50'', ''05 Jan 24 B 4.50''] \<le> 2 \<and>
   westpac_main (\<lambda>k. ''id'') [''05 Jan 24 A 4.50'', ''05 Jan 24 B 4.50''] = Inr []"
proof -
  let ?P = "[''05 Jan 24 A 4.50'', ''05 Jan 24 B 4.50'', ''05 Jan 24 C 4.50'', [], [],
             ''05 Jan 24 F 4.50'']"
  let ?Q = "[[], ''x'', ''05 Jan 24 C 4.50'', [], []]"
  let ?R = "[''05 Jan 24 A 4.50'', ''05 Jan 24 B 4.50'']"
  let ?u = "\<lambda>k::nat. ''id''"
  have s2: "same_page ?P ?Q 2" and s3: "same_page ?P ?Q 3" and s4: "same_page ?P ?Q 4"
    by (simp_all add: same_page_def)
  have len: "length ?R \<le> 2"
    by simp
  note inst1 = westpac_pages_2_3_4 [of ?u ?P ?Q]
  note inst2 = westpac_pages_2_3_4 [of ?u ?R ?R]
  have eq: "westpac_main ?u ?P = westpac_main ?u ?Q"
    using inst1 s2 s3 s4 by blast
  have empty: "westpac_main ?u ?R = Inr []"
    using inst2 len by blast
  have val: "westpac_main ?u ?Q
     = Inr [\<lparr>tid = ''id'', date = ''2024-01-05'', description = ''C'', amount = - (9 / 2)\<rparr>]"
    by code_simp
  show ?thesis
    by (intro conjI) (rule s2, rule s3, rule s4, rule eq, rule val, rule len, rule empty)
qed

section \<open>Dates of the generic parser\<close>






text \<open>
  The ANZ parser calls \<open>strptime\<close> with no handler of its own: a row whose transaction
  date is not a day of the calendar ends the whole run with an error.
\<close>

lemma anz_invalid_date_fails:
  "anz_parse uuid ''01/02/2024 31/02/2024 1234 COFFEE SHOP 4.50 120.00'' = Inl ValueError"
  by code_simp



section \<open>The fallback pass\<close>

lemma money_not_minus: "cls_ok money ch \<Longrightarrow> ch \<noteq> CHR ''-''"
  by (auto simp: money_def dest: not_minus_digit)

lemma fallback_group4: "cap_accepts local_fallback_pattern 4 ch \<Longrightarrow> cls_ok money ch"
  by (simp add: local_fallback_pattern_def seq_def)

lemma local_fallback_line_amount:
  assumes "local_fallback_line l = Inr (Some (d, desc, a))"
  shows "\<exists>m v. re_match local_fallback_pattern (strip l) = Some m \<and>
           py_float (remove_commas (group_str m 4)) = Some v \<and> a = - v \<and> 0 \<le> v"
proof -
  from assms obtain m v where m: "re_match local_fallback_pattern (strip l) = Some m"
    and v: "py_float (remove_commas (group_str m 4)) = Some v" and a: "a = - v"
    by (auto simp: local_fallback_line_def Let_def split: option.splits)
  have "list_all (\<lambda>ch. ch \<noteq> CHR ''-'') (group_str m 4)"
  proof (cases "group m 4")
    case None
    then show ?thesis by (simp add: group_str_def)
  next
    case (Some g)
    from re_match_group [OF m Some] have "list_all (cap_accepts local_fallback_pattern 4) g" .
    then have "list_all (\<lambda>ch. ch \<noteq> CHR ''-'') g"
      by (auto simp: list_all_iff dest!: fallback_group4 money_not_minus)
    with Some show ?thesis by (simp add: group_str_def)
  qed
  from no_minus_float [OF this v] m v a show ?thesis by blast
qed

text \<open>
  A line that only the fallback pattern matches and whose amount reads \<open>0.00\<close> gives a
  transaction of the fallback pass whose amount is zero, not negative.
\<close>

theorem fallback_zero_amount:
  "scan_lines local_primary_line (\<lambda>k. ''id'') [''1 Jan foo 0.00''] [] = Inr [] \<and>
   local_parse (\<lambda>k. ''id'') [''1 Jan foo 0.00'']
     = Inr [\<lparr>tid = ''id'', date = ''2023-01-01'', description = ''foo'', amount = 0\<rparr>] \<and>
   \<not> amount \<lparr>tid = ''id'', date = ''2023-01-01'', description = ''foo'', amount = 0\<rparr> < 0"
proof -
  have p: "local_primary_line ''1 Jan foo 0.00'' = Inr None"
    by code_simp
  have f: "local_fallback_line ''1 Jan foo 0.00'' = Inr (Some (''2023-01-01'', ''foo'', 0))"
    by code_simp
  show ?thesis
    by (simp add: local_parse_def p f append_txn_def)
qed

text \<open>
  Claim C3, as amended. The fallback pass runs over all the lines exactly when the primary
  pass over all the lines ended with no transaction: then the batch is the result of the
  fallback pass alone; when the primary pass gave transactions the batch is exactly those;
  when it raised, the run fails. Every transaction of the fallback pass has the negated
  value of its amount text, which is not negative itself: the amount is at most zero, and
  it is negative unless the value of the text is zero.
\<close>

theorem fallback_pass:
  "(scan_lines local_primary_line uuid lines [] = Inr []
      \<longrightarrow> local_parse uuid lines = scan_lines local_fallback_line uuid lines []) \<and>
   (scan_lines local_primary_line uuid lines [] = Inr ts \<and> ts \<noteq> []
      \<longrightarrow> local_parse uuid lines = Inr ts) \<and>
   (scan_lines local_primary_line uuid lines [] = Inl e \<longrightarrow> local_parse uuid lines = Inl e) \<and>
   (scan_lines local_fallback_line uuid lines [] = Inr ts' \<longrightarrow> (\<forall>t \<in> set ts'. amount t \<le> 0)) \<and>
   (local_fallback_line l = Inr (Some (d, desc, a))
      \<longrightarrow> (\<exists>m v. re_match local_fallback_pattern (strip l) = Some m \<and>
                 py_float (remove_commas (group_str m 4)) = Some v \<and> a = - v \<and> 0 \<le> v))"
proof -
  have 4: "scan_lines local_fallback_line uuid lines [] = Inr ts' \<longrightarrow> (\<forall>t \<in> set ts'. amount t \<le> 0)"
  proof (intro impI ballI)
    fix t assume run: "scan_lines local_fallback_line uuid lines [] = Inr ts'" and t: "t \<in> set ts'"
    from scan_lines_rows [OF run t] obtain l where
      "local_fallback_line l = Inr (Some (date t, description t, amount t))"
      by auto
    from local_fallback_line_amount [OF this] show "amount t \<le> 0" by auto
  qed
  have 5: "local_fallback_line l = Inr (Some (d, desc, a))
      \<longrightarrow> (\<exists>m v. re_match local_fallback_pattern (strip l) = Some m \<and>
                 py_float (remove_commas (group_str m 4)) = Some v \<and> a = - v \<and> 0 \<le> v)"
    by (blast dest: local_fallback_line_amount)
  from 4 5 show ?thesis
    by (simp add: local_parse_def)
qed

theorem fallback_pass_witness:
  "scan_lines local_primary_line (\<lambda>k. ''id'') [''1 Jan foo 5.00'', ''x''] [] = Inr [] \<and>
   local_parse (\<lambda>k. ''id'') [''1 Jan foo 5.00'', ''x'']
     = Inr [\<lparr>tid = ''id'', date = ''2023-01-01'', description = ''foo'', amount = - 5\<rparr>] \<and>
   amount \<lparr>tid = ''id'', date = ''2023-01-01'', description = ''foo'', amount = - 5\<rparr> \<le> 0 \<and>
   scan_lines local_primary_line (\<lambda>k. ''id'') [''1 Jan foo 5.00'', ''3 Jun DR COFFEE 4.50''] []
     = Inr [\<lparr>tid = ''id'', date = ''2023-06-03'', description = ''COFFEE'', amount = - (9 / 2)\<rparr>] \<and>
   local_parse (\<lambda>k. ''id'') [''1 Jan foo 5.00'', ''3 Jun DR COFFEE 4.50'']
     = Inr [\<lparr>tid = ''id'', date = ''2023-06-03'', description = ''COFFEE'', amount = - (9 / 2)\<rparr>] \<and>
   local_fallback_line ''1 Jan foo 5.00'' = Inr (Some (''2023-01-01'', ''foo'', - 5))"
proof -
  let ?u = "\<lambda>k::nat. ''id''"
  let ?foo = "''1 Jan foo 5.00''"
  let ?cof = "''3 Jun DR COFFEE 4.50''"
  let ?tf = "\<lparr>tid = ''id'', date = ''2023-01-01'', description = ''foo'', amount = - 5\<rparr>"
  let ?tc = "\<lparr>tid = ''id'', date = ''2023-06-03'', description = ''COFFEE'', amount = - (9 / 2)\<rparr>"
  have p1: "local_primary_line ?foo = Inr None"
    by code_simp
  have p2: "local_primary_line ''x'' = Inr None"
    by code_simp
  have p3: "local_primary_line ?cof = Inr (Some (''2023-06-03'', ''COFFEE'', - (9 / 2)))"
    by code_simp
  have f1: "local_fallback_line ?foo = Inr (Some (''2023-01-01'', ''foo'', - 5))"
    by code_simp
  have f2: "local_fallback_line ''x'' = Inr None"
    by code_simp
  have prim1: "scan_lines local_primary_line ?u [?foo, ''x''] [] = Inr []"
    by (simp add: p1 p2)
  have fall1: "scan_lines local_fallback_line ?u [?foo, ''x''] [] = Inr [?tf]"
    by (simp add: f1 f2 append_txn_def)
  have prim2: "scan_lines local_primary_line ?u [?foo, ?cof] [] = Inr [?tc]"
    by (simp add: p1 p3 append_txn_def)
  note thm1 = fallback_pass [of ?u "[?foo, ''x'']" "[]" ValueError "[?tf]" ?foo "''2023-01-01''" "''foo''" "- 5"]
  note thm2 = fallback_pass [of ?u "[?foo, ?cof]" "[?tc]" ValueError "[?tf]" ?foo "''2023-01-01''" "''foo''" "- 5"]
  have r1: "local_parse ?u [?foo, ''x''] = Inr [?tf]"
    using thm1 prim1 fall1 by simp
  have neg: "amount ?tf \<le> 0"
    using thm1 fall1 by simp
  have r2: "local_parse ?u [?foo, ?cof] = Inr [?tc]"
    using thm2 prim2 by simp
  show ?thesis
    by (intro conjI) (rule prim1, rule r1, rule neg, rule prim2, rule r2, rule f1)
qed

section \<open>The sign of an amount\<close>

lemma westpac_row_described:
  assumes "westpac_row date_str rest = Inr (Some (d, desc, a))"
  shows "desc = collapse_spaces
                  (westpac_description rest (last (findall westpac_amount_pattern rest)))"
  using assms
  by (auto simp: westpac_row_def Let_def split: option.splits if_splits)

lemma westpac_line_row:
  "westpac_line line = Inr (Some r) \<Longrightarrow>
   \<exists>lm. re_match westpac_line_start_pattern line = Some lm \<and>
        westpac_row (group_str lm 1) (group_str lm 2) = Inr (Some r)"
  by (auto simp: westpac_line_def split: option.splits)

text \<open>
  Two dated lines of a CBA statement that are not balance lines: the amount token of the
  first carries a minus sign, and the amount of its transaction is positive; the second
  has no amount token, and the amount of its transaction is zero.
\<close>

theorem cba_minus_token_and_zero:
  "\<not> cba_is_balance (strip ''1 January 2024 FEE -5.00'') \<and>
   cba_line ''1 January 2024 FEE -5.00'' = Inr (Some (''2024-01-01'', ''FEE'', 5)) \<and>
   \<not> (5 :: amount) < 0 \<and>
   \<not> cba_is_balance (strip ''1 January 2024 HELLO'') \<and>
   cba_line ''1 January 2024 HELLO'' = Inr (Some (''2024-01-01'', ''HELLO'', 0))"
proof -
  have a: "\<not> cba_is_balance (strip ''1 January 2024 FEE -5.00'')"
    by code_simp
  have b: "cba_line ''1 January 2024 FEE -5.00'' = Inr (Some (''2024-01-01'', ''FEE'', 5))"
    by code_simp
  have c: "\<not> cba_is_balance (strip ''1 January 2024 HELLO'')"
    by code_simp
  have d: "cba_line ''1 January 2024 HELLO'' = Inr (Some (''2024-01-01'', ''HELLO'', 0))"
    by code_simp
  from a b c d show ?thesis by simp
qed

text \<open>
  Claim C1, as amended. Every transaction of a CBA batch comes from one line of the
  statement. A balance line gives amount 0. Any other dated line gives the negated value
  of the last amount token of the text after the date: at most zero for a token with no
  sign, at least zero for a token with a leading minus sign, and zero when the text has no
  amount token. Every transaction of a Westpac batch comes from one line that matches the
  line pattern. Its amount is the value of the last amount token, which is not negative,
  when the text before that token, trimmed, holds \<open>CRED VOUCHER\<close>, and the negated value
  otherwise. The test reads that text as it stands before its runs of whitespace are
  collapsed, and the description of the transaction is the collapsed text: a line with
  \<open>CRED  VOUCHER\<close>, two blanks between the words, has the negated value and the
  description \<open>CRED VOUCHER\<close>.
\<close>

theorem sign_rule:
  "(cba_parse uuid lines = Inr ts \<and> t \<in> set ts \<longrightarrow>
      (\<exists>l \<in> set lines. cba_line l = Inr (Some (date t, description t, amount t)))) \<and>
   (cba_is_balance (strip raw) \<longrightarrow> (\<exists>d0 label. cba_line raw = Inr (Some (d0, label, 0)))) \<and>
   (\<not> cba_is_balance (strip raw) \<and> cba_line raw = Inr (Some (d, desc, a)) \<longrightarrow>
      (\<exists>m. re_match cba_date_pattern (strip raw) = Some m \<and>
         (let amounts = findall cba_amount_pattern (strip (drop (match_end m) (strip raw)))
          in if amounts = [] then a = 0
             else \<exists>v. py_float (remove_commas (last amounts)) = Some v \<and> a = - v \<and>
                    (starts_with ''-'' (last amounts) \<longrightarrow> v \<le> 0 \<and> 0 \<le> a) \<and>
                    (\<not> starts_with ''-'' (last amounts) \<longrightarrow> 0 \<le> v \<and> a \<le> 0)))) \<and>
   (westpac_parse uuid wlines = Inr wts \<and> wt \<in> set wts \<longrightarrow>
      (\<exists>l \<in> set wlines. \<exists>lm. re_match westpac_line_start_pattern l = Some lm \<and>
         westpac_row (group_str lm 1) (group_str lm 2)
           = Inr (Some (date wt, description wt, amount wt)))) \<and>
   (westpac_row date_str rest = Inr (Some (d', desc', a')) \<longrightarrow>
      (\<exists>v. py_float (remove_commas (last (findall westpac_amount_pattern rest))) = Some v \<and>
         0 \<le> v \<and>
         a' = (if str_in ''CRED VOUCHER''
                    (westpac_description rest (last (findall westpac_amount_pattern rest)))
               then v else - v) \<and>
         desc' = collapse_spaces
                   (westpac_description rest (last (findall westpac_amount_pattern rest))))) \<and>
   westpac_description ''CRED  VOUCHER 4.50'' ''4.50'' = ''CRED  VOUCHER'' \<and>
   westpac_row ''05 Jan 24'' ''CRED  VOUCHER 4.50''
     = Inr (Some (''2024-01-05'', ''CRED VOUCHER'', - (9 / 2)))"
proof -
  have 0: "cba_parse uuid lines = Inr ts \<and> t \<in> set ts \<longrightarrow>
      (\<exists>l \<in> set lines. cba_line l = Inr (Some (date t, description t, amount t)))"
    unfolding cba_parse_def using scan_lines_rows [of cba_line uuid lines "[]" ts t] by auto
  have 1: "cba_is_balance (strip raw) \<longrightarrow> (\<exists>d0 label. cba_line raw = Inr (Some (d0, label, 0)))"
    by (simp add: cba_line_def cba_balance_row_def Let_def)
  have 2: "\<not> cba_is_balance (strip raw) \<and> cba_line raw = Inr (Some (d, desc, a)) \<longrightarrow>
      (\<exists>m. re_match cba_date_pattern (strip raw) = Some m \<and>
         (let amounts = findall cba_amount_pattern (strip (drop (match_end m) (strip raw)))
          in if amounts = [] then a = 0
             else \<exists>v. py_float (remove_commas (last amounts)) = Some v \<and> a = - v \<and>
                    (starts_with ''-'' (last amounts) \<longrightarrow> v \<le> 0 \<and> 0 \<le> a) \<and>
                    (\<not> starts_with ''-'' (last amounts) \<longrightarrow> 0 \<le> v \<and> a \<le> 0)))"
  proof
    assume h: "\<not> cba_is_balance (strip raw) \<and> cba_line raw = Inr (Some (d, desc, a))"
    then have "cba_dated_row (strip raw) = Inr (Some (d, desc, a))"
      by (auto simp: cba_line_def Let_def)
    from cba_dated_row_amount [OF this] show "\<exists>m. re_match cba_date_pattern (strip raw) = Some m \<and>
         (let amounts = findall cba_amount_pattern (strip (drop (match_end m) (strip raw)))
          in if amounts = [] then a = 0
             else \<exists>v. py_float (remove_commas (last amounts)) = Some v \<and> a = - v \<and>
                    (starts_with ''-'' (last amounts) \<longrightarrow> v \<le> 0 \<and> 0 \<le> a) \<and>
                    (\<not> starts_with ''-'' (last amounts) \<longrightarrow> 0 \<le> v \<and> a \<le> 0))" .
  qed
  have 3: "westpac_parse uuid wlines = Inr wts \<and> wt \<in> set wts \<longrightarrow>
      (\<exists>l \<in> set wlines. \<exists>lm. re_match westpac_line_start_pattern l = Some lm \<and>
         westpac_row (group_str lm 1) (group_str lm 2)
           = Inr (Some (date wt, description wt, amount wt)))"
  proof
    assume h: "westpac_parse uuid wlines = Inr wts \<and> wt \<in> set wts"
    then have "\<exists>l \<in> set wlines. westpac_line l = Inr (Some (date wt, description wt, amount wt))"
      unfolding westpac_parse_def
      using scan_lines_rows [of westpac_line uuid wlines "[]" wts wt] by auto
    then show "\<exists>l \<in> set wlines. \<exists>lm. re_match westpac_line_start_pattern l = Some lm \<and>
         westpac_row (group_str lm 1) (group_str lm 2)
           = Inr (Some (date wt, description wt, amount wt))"
      by (blast dest: westpac_line_row)
  qed
  have 4: "westpac_row date_str rest = Inr (Some (d', desc', a')) \<longrightarrow>
      (\<exists>v. py_float (remove_commas (last (findall westpac_amount_pattern rest))) = Some v \<and>
         0 \<le> v \<and>
         a' = (if str_in ''CRED VOUCHER''
                    (westpac_description rest (last (findall westpac_amount_pattern rest)))
               then v else - v) \<and>
         desc' = collapse_spaces
                   (westpac_description rest (last (findall westpac_amount_pattern rest))))"
    using westpac_row_amount [of date_str rest d' desc' a']
      westpac_row_described [of date_str rest d' desc' a']
    by blast
  have 5: "westpac_description ''CRED  VOUCHER 4.50'' ''4.50'' = ''CRED  VOUCHER''"
    by code_simp
  have 6: "westpac_row ''05 Jan 24'' ''CRED  VOUCHER 4.50''
     = Inr (Some (''2024-01-05'', ''CRED VOUCHER'', - (9 / 2)))"
    by code_simp
  show ?thesis
    by (intro conjI) (rule 0, rule 1, rule 2, rule 3, rule 4, rule 5, rule 6)
qed

theorem sign_rule_witness:
  "cba_is_balance (strip ''CLOSING BALANCE 12.00'') \<and>
   cba_line ''CLOSING BALANCE 12.00'' = Inr (Some ([], ''CLOSING BALANCE'', 0)) \<and>
   \<not> cba_is_balance (strip ''1 January 2024 PAY 1,234.56'') \<and>
   cba_line ''1 January 2024 PAY 1,234.56'' = Inr (Some (''2024-01-01'', ''PAY'', - (30864 / 25))) \<and>
   (\<exists>m. re_match cba_date_pattern (strip ''1 January 2024 PAY 1,234.56'') = Some m) \<and>
   cba_parse (\<lambda>k. ''id'') [''1 January 2024 PAY 1,234.56'']
     = Inr [\<lparr>tid = ''id'', date = ''2024-01-01'', description = ''PAY'',
             amount = - (30864 / 25)\<rparr>] \<and>
   (\<exists>l \<in> set [''1 January 2024 PAY 1,234.56''].
      cba_line l = Inr (Some (''2024-01-01'', ''PAY'', - (30864 / 25)))) \<and>
   westpac_row ''05 Jan 24'' ''DEPOSIT CRED VOUCHER  1,234.50''
     = Inr (Some (''2024-01-05'', ''DEPOSIT CRED VOUCHER'', 2469 / 2)) \<and>
   (\<exists>v. py_float (remove_commas
            (last (findall westpac_amount_pattern ''DEPOSIT CRED VOUCHER  1,234.50''))) = Some v \<and>
        0 \<le> v) \<and>
   westpac_parse (\<lambda>k. ''id'') [''05 Jan 24  DEPOSIT CRED VOUCHER  1,234.50'']
     = Inr [\<lparr>tid = ''id'', date = ''2024-01-05'', description = ''DEPOSIT CRED VOUCHER'',
             amount = 2469 / 2\<rparr>]"
proof -
  let ?u = "\<lambda>k::nat. ''id''"
  let ?bal = "''CLOSING BALANCE 12.00''"
  let ?pay = "''1 January 2024 PAY 1,234.56''"
  let ?wline = "''DEPOSIT CRED VOUCHER  1,234.50''"
  let ?wl = "''05 Jan 24  DEPOSIT CRED VOUCHER  1,234.50''"
  let ?t = "\<lparr>tid = ''id'', date = ''2024-01-01'', description = ''PAY'',
             amount = - (30864 / 25)\<rparr>"
  let ?wt = "\<lparr>tid = ''id'', date = ''2024-01-05'', description = ''DEPOSIT CRED VOUCHER'',
             amount = 2469 / 2\<rparr>"
  have b1: "cba_is_balance (strip ?bal)"
    by code_simp
  have b2: "cba_line ?bal = Inr (Some ([], ''CLOSING BALANCE'', 0))"
    by code_simp
  have p1: "\<not> cba_is_balance (strip ?pay)"
    by code_simp
  have p2: "cba_line ?pay = Inr (Some (''2024-01-01'', ''PAY'', - (30864 / 25)))"
    by code_simp
  have run: "cba_parse ?u [?pay] = Inr [?t]"
    by (simp add: cba_parse_def p2 append_txn_def)
  have w1: "westpac_row ''05 Jan 24'' ?wline = Inr (Some (''2024-01-05'', ''DEPOSIT CRED VOUCHER'', 2469 / 2))"
    by code_simp
  have w2: "westpac_line ?wl = Inr (Some (''2024-01-05'', ''DEPOSIT CRED VOUCHER'', 2469 / 2))"
    by code_simp
  have wrun: "westpac_parse ?u [?wl] = Inr [?wt]"
    by (simp add: westpac_parse_def w2 append_txn_def)
  note inst = sign_rule [of ?u "[?pay]" "[?t]" ?t ?pay "''2024-01-01''" "''PAY''" "- (30864 / 25)"
      "[?wl]" "[?wt]" ?wt "''05 Jan 24''" ?wline
      "''2024-01-05''" "''DEPOSIT CRED VOUCHER''" "2469 / 2"]
  have m: "\<exists>m. re_match cba_date_pattern (strip ?pay) = Some m"
    using inst p1 p2 by blast
  have from_line: "\<exists>l \<in> set [?pay]. cba_line l = Inr (Some (''2024-01-01'', ''PAY'', - (30864 / 25)))"
    using inst [THEN conjunct1] run by simp
  have v: "\<exists>v. py_float (remove_commas (last (findall westpac_amount_pattern ?wline))) = Some v \<and> 0 \<le> v"
    using inst w1 by blast
  show ?thesis
    by (intro conjI) (rule b1, rule b2, rule p1, rule p2, rule m, rule run, rule from_line,
        rule w1, rule v, rule wrun)
qed

section \<open>Continuation lines\<close>


lemma wcc_collect_no_amounts:
  assumes "list_all (\<lambda>f. \<not> wcc_is_amounts_line (strip f)) frags"
  shows "wcc_collect parts frags = (parts @ map strip frags, [], [])"
  using assms by (induction frags arbitrary: parts) (simp_all add: Let_def)



section \<open>Two tokens, three tokens and the credit marker\<close>

lemma anz_group6_not_minus: "cap_accepts anz_pattern 6 ch \<Longrightarrow> ch \<noteq> CHR ''-''"
  by (auto simp: anz_pattern_def seq_def slash_date_def dollars_def lit_def dest: not_minus_digit)

lemma anz_amount_nonneg:
  assumes "m \<in> set (finditer anz_pattern text)"
    and "py_float (remove_commas (group_str m 6)) = Some v"
  shows "0 \<le> v"
proof -
  have "list_all (\<lambda>ch. ch \<noteq> CHR ''-'') (group_str m 6)"
  proof (cases "group m 6")
    case None
    then show ?thesis by (simp add: group_str_def)
  next
    case (Some g)
    from assms(1) have "m \<in> set (finditer_from anz_pattern 0 text)"
      by (simp add: finditer_def)
    from finditer_from_ok [OF this] Some have "list_all (cap_accepts anz_pattern 6) g"
      by blast
    then have "list_all (\<lambda>ch. ch \<noteq> CHR ''-'') g"
      by (auto simp: list_all_iff dest: anz_group6_not_minus)
    with Some show ?thesis by (simp add: group_str_def)
  qed
  from no_minus_float [OF this assms(2)] show ?thesis .
qed

text \<open>
  Three statements against the claim as it is written. In the credit card parser an
  amounts line with two tokens and \<open>CR\<close> next to the first gives a negative amount,
  because this parser reads no marker; a first token \<open>0.00\<close> under the keyword
  \<open>Deposit\<close> gives the amount zero, which is not positive. In the ANZ parser a row
  whose description holds \<open>Refund\<close> and \<open>Deposit\<close> and that has no \<open>CR\<close> label gives a
  negative amount, because this parser reads no keyword.
\<close>

theorem two_token_rule_fails:
  "findall thousands ''1,010.00 CR 90.00'' = [''1,010.00'', ''90.00''] \<and>
   wcc_parse (\<lambda>k. ''id'') [''01/02/24 SHOP'', ''1,010.00 CR 90.00'']
     = Inr [\<lparr>tid = ''id'', date = ''2024-02-01'', description = ''SHOP'', amount = - 1010\<rparr>] \<and>
   \<not> (0 :: amount) < - 1010 \<and>
   findall thousands ''0.00 90.00'' = [''0.00'', ''90.00''] \<and>
   wcc_parse (\<lambda>k. ''id'') [''01/02/24 Deposit'', ''0.00 90.00'']
     = Inr [\<lparr>tid = ''id'', date = ''2024-02-01'', description = ''Deposit'', amount = 0\<rparr>] \<and>
   \<not> (0 :: amount) < 0 \<and>
   anz_parse (\<lambda>k. ''id'') ''01/02/2024 01/02/2024 1234 Refund Deposit 4.50 120.00''
     = Inr [\<lparr>tid = ''id'', date = ''2024-02-01'', description = ''Refund Deposit'',
             amount = - (9 / 2)\<rparr>] \<and>
   \<not> (0 :: amount) < - (9 / 2)"
proof -
  have a: "findall thousands ''1,010.00 CR 90.00'' = [''1,010.00'', ''90.00'']"
    by code_simp
  have b: "wcc_parse (\<lambda>k. ''id'') [''01/02/24 SHOP'', ''1,010.00 CR 90.00'']
     = Inr [\<lparr>tid = ''id'', date = ''2024-02-01'', description = ''SHOP'', amount = - 1010\<rparr>]"
    by code_simp
  have c: "findall thousands ''0.00 90.00'' = [''0.00'', ''90.00'']"
    by code_simp
  have d: "wcc_parse (\<lambda>k. ''id'') [''01/02/24 Deposit'', ''0.00 90.00'']
     = Inr [\<lparr>tid = ''id'', date = ''2024-02-01'', description = ''Deposit'', amount = 0\<rparr>]"
    by code_simp
  have e: "anz_parse (\<lambda>k. ''id'') ''01/02/2024 01/02/2024 1234 Refund Deposit 4.50 120.00''
     = Inr [\<lparr>tid = ''id'', date = ''2024-02-01'', description = ''Refund Deposit'',
             amount = - (9 / 2)\<rparr>]"
    by code_simp
  have n1: "\<not> (0 :: amount) < - 1010" and n2: "\<not> (0 :: amount) < 0"
    and n3: "\<not> (0 :: amount) < - (9 / 2)"
    by simp_all
  show ?thesis
    by (intro conjI) (rule a, rule b, rule n1, rule c, rule d, rule n2, rule e, rule n3)
qed

text \<open>
  Claim C5, as amended. In the Westpac credit card parser, a dated line whose amounts line
  holds exactly two amount tokens gives a transaction whose amount is the value of the
  first token, taken as it is when the joined description contains \<open>Deposit\<close> or
  \<open>Refund\<close> and negated otherwise, whatever else stands on the amounts line: this parser
  reads no credit marker. In the ANZ parser, a row whose credit label \<open>CR\<close> was matched
  after the amount has the value of the amount as it is, and a row with no label has the
  negated value, whatever the description says: this parser reads no keyword. The value
  of a token is never negative, so the amount is at least zero in the first case and at
  most zero in the second, and it is zero exactly when the value of the token is zero.
\<close>

theorem two_tokens_and_credit_marker:
  "(re_match wcc_date_pattern (strip l) = Some dm \<and>
    strptime_dmy (group_str dm 1) = Some dt0 \<and>
    wcc_collect [strip (group_str dm 2)] rest = (parts, amounts_line, rest') \<and>
    findall thousands amounts_line = [t1, t2] \<and> py_float (remove_commas t1) = Some v \<longrightarrow>
      0 \<le> v \<and>
      wcc_step l rest
        = (Inr (Some (strftime_Ymd dt0, join '' '' parts,
                      if str_in ''Deposit'' (join '' '' parts) \<or>
                         str_in ''Refund'' (join '' '' parts)
                      then v else - v)), rest')) \<and>
   (findall thousands amounts_line = [t1, t2] \<and> py_float (remove_commas t1) = Some v \<longrightarrow>
      0 \<le> v \<and>
      wcc_amount full_description (findall thousands amounts_line)
        = Inr (Some (if str_in ''Deposit'' full_description \<or> str_in ''Refund'' full_description
                     then v else - v))) \<and>
   (m \<in> set (finditer anz_pattern text) \<and> strptime_dmY (group_str m 3) = Some dt \<and>
    py_float (remove_commas (group_str m 6)) = Some w \<longrightarrow>
      0 \<le> w \<and>
      anz_row m = Inr (Some (strftime_Ymd dt, strip (group_str m 5),
                             (case truthy (group m 7) of Some label \<Rightarrow> w | None \<Rightarrow> - w)))) \<and>
   ((if kw then v else - v) = 0 \<longleftrightarrow> v = 0)"
proof -
  have 1: "findall thousands amounts_line = [t1, t2] \<and> py_float (remove_commas t1) = Some v \<longrightarrow>
      0 \<le> v \<and>
      wcc_amount full_description (findall thousands amounts_line)
        = Inr (Some (if str_in ''Deposit'' full_description \<or> str_in ''Refund'' full_description
                     then v else - v))" for full_description
  proof
    assume h: "findall thousands amounts_line = [t1, t2] \<and> py_float (remove_commas t1) = Some v"
    then have "t1 \<in> set (findall thousands amounts_line)" by simp
    from thousands_token_nonneg [OF this] h have v: "0 \<le> v" by blast
    from h have ne: "t1 \<noteq> []" by (blast dest: py_float_nonempty)
    from h ne have "wcc_amount full_description (findall thousands amounts_line)
        = Inr (Some (if str_in ''Deposit'' full_description \<or> str_in ''Refund'' full_description
                     then v else - v))"
      by (simp add: wcc_amount_two)
    with v show "0 \<le> v \<and>
      wcc_amount full_description (findall thousands amounts_line)
        = Inr (Some (if str_in ''Deposit'' full_description \<or> str_in ''Refund'' full_description
                     then v else - v))" by blast
  qed
  have 0: "re_match wcc_date_pattern (strip l) = Some dm \<and>
    strptime_dmy (group_str dm 1) = Some dt0 \<and>
    wcc_collect [strip (group_str dm 2)] rest = (parts, amounts_line, rest') \<and>
    findall thousands amounts_line = [t1, t2] \<and> py_float (remove_commas t1) = Some v \<longrightarrow>
      0 \<le> v \<and>
      wcc_step l rest
        = (Inr (Some (strftime_Ymd dt0, join '' '' parts,
                      if str_in ''Deposit'' (join '' '' parts) \<or>
                         str_in ''Refund'' (join '' '' parts)
                      then v else - v)), rest')"
  proof
    assume h: "re_match wcc_date_pattern (strip l) = Some dm \<and>
      strptime_dmy (group_str dm 1) = Some dt0 \<and>
      wcc_collect [strip (group_str dm 2)] rest = (parts, amounts_line, rest') \<and>
      findall thousands amounts_line = [t1, t2] \<and> py_float (remove_commas t1) = Some v"
    then have a: "0 \<le> v \<and> wcc_amount (join '' '' parts) (findall thousands amounts_line)
        = Inr (Some (if str_in ''Deposit'' (join '' '' parts) \<or>
                        str_in ''Refund'' (join '' '' parts) then v else - v))"
      using 1 [of "join '' '' parts"] by blast
    from h have "wcc_step l rest
           = (case wcc_amount (join '' '' parts) (findall thousands amounts_line) of
                Inl e \<Rightarrow> (Inl e, rest')
              | Inr None \<Rightarrow> (Inr None, rest')
              | Inr (Some a) \<Rightarrow> (Inr (Some (strftime_Ymd dt0, join '' '' parts, a)), rest'))"
      by (blast intro: wcc_step_row)
    with a show "0 \<le> v \<and>
      wcc_step l rest
        = (Inr (Some (strftime_Ymd dt0, join '' '' parts,
                      if str_in ''Deposit'' (join '' '' parts) \<or>
                         str_in ''Refund'' (join '' '' parts)
                      then v else - v)), rest')"
      by simp
  qed
  have 2: "m \<in> set (finditer anz_pattern text) \<and> strptime_dmY (group_str m 3) = Some dt \<and>
    py_float (remove_commas (group_str m 6)) = Some w \<longrightarrow>
      0 \<le> w \<and>
      anz_row m = Inr (Some (strftime_Ymd dt, strip (group_str m 5),
                             (case truthy (group m 7) of Some label \<Rightarrow> w | None \<Rightarrow> - w)))"
    by (auto simp: anz_row_def Let_def dest: anz_amount_nonneg)
  have 3: "(if kw then v else - v) = 0 \<longleftrightarrow> v = 0"
    by simp
  show ?thesis
    by (intro conjI) (rule 0, rule 1, rule 2, rule 3)
qed

theorem two_tokens_and_credit_marker_witness:
  "re_match wcc_date_pattern (strip ''01/02/24 A Refund'')
     = Some \<lparr>m_start = 0, m_end = 17, m_text = ''01/02/24 A Refund'',
             m_caps = [(2, ''A Refund''), (1, ''01/02/24'')]\<rparr> \<and>
   strptime_dmy ''01/02/24'' = Some (2024, 2, 1) \<and>
   wcc_collect [strip ''A Refund''] [''B'', ''10.00 CR 90.00'', ''next'']
     = ([''A Refund'', ''B''], ''10.00 CR 90.00'', [''next'']) \<and>
   findall thousands ''10.00 CR 90.00'' = [''10.00'', ''90.00''] \<and>
   py_float (remove_commas ''10.00'') = Some 10 \<and>
   wcc_step ''01/02/24 A Refund'' [''B'', ''10.00 CR 90.00'', ''next'']
     = (Inr (Some (''2024-02-01'', ''A Refund B'', 10)), [''next'']) \<and>
   wcc_amount ''A Refund B'' (findall thousands ''10.00 CR 90.00'') = Inr (Some 10) \<and>
   wcc_amount ''A B'' (findall thousands ''10.00 CR 90.00'') = Inr (Some (- 10)) \<and>
   \<lparr>m_start = 0, m_end = 59,
      m_text = ''01/02/2024 01/02/2024 1234 REFUND SHOP $1,004.50 CR $120.00'',
      m_caps = [(1, ''01/02/2024 01/02/2024 1234 REFUND SHOP $1,004.50 CR $120.00''),
                (8, ''120.00''), (7, ''CR''), (6, ''1,004.50''), (5, ''REFUND SHOP''),
                (4, ''1234''), (3, ''01/02/2024''), (2, ''01/02/2024'')]\<rparr>
     \<in> set (finditer anz_pattern
                ''01/02/2024 01/02/2024 1234 REFUND SHOP $1,004.50 CR $120.00'') \<and>
   strptime_dmY ''01/02/2024'' = Some (2024, 2, 1) \<and>
   py_float (remove_commas ''1,004.50'') = Some (2009 / 2) \<and>
   anz_row \<lparr>m_start = 0, m_end = 59,
      m_text = ''01/02/2024 01/02/2024 1234 REFUND SHOP $1,004.50 CR $120.00'',
      m_caps = [(1, ''01/02/2024 01/02/2024 1234 REFUND SHOP $1,004.50 CR $120.00''),
                (8, ''120.00''), (7, ''CR''), (6, ''1,004.50''), (5, ''REFUND SHOP''),
                (4, ''1234''), (3, ''01/02/2024''), (2, ''01/02/2024'')]\<rparr>
     = Inr (Some (''2024-02-01'', ''REFUND SHOP'', 2009 / 2))"
proof -
  let ?text = "''01/02/2024 01/02/2024 1234 REFUND SHOP $1,004.50 CR $120.00''"
  let ?m = "\<lparr>m_start = 0, m_end = 59, m_text = ?text,
      m_caps = [(1, ?text),
                (8, ''120.00''), (7, ''CR''), (6, ''1,004.50''), (5, ''REFUND SHOP''),
                (4, ''1234''), (3, ''01/02/2024''), (2, ''01/02/2024'')]\<rparr>"
  let ?l = "''01/02/24 A Refund''"
  let ?dm = "\<lparr>m_start = 0, m_end = 17, m_text = ''01/02/24 A Refund'',
             m_caps = [(2, ''A Refund''), (1, ''01/02/24'')]\<rparr>"
  let ?rest = "[''B'', ''10.00 CR 90.00'', ''next'']"
  have rm: "re_match wcc_date_pattern (strip ?l) = Some ?dm"
    by code_simp
  have gd: "group_str ?dm 1 = ''01/02/24''" "group_str ?dm 2 = ''A Refund''"
    by (simp_all add: group_str_def group_def)
  have sd: "strptime_dmy ''01/02/24'' = Some (2024, 2, 1)"
    by code_simp
  have col: "wcc_collect [strip ''A Refund''] ?rest
     = ([''A Refund'', ''B''], ''10.00 CR 90.00'', [''next''])"
    by code_simp
  have toks: "findall thousands ''10.00 CR 90.00'' = [''10.00'', ''90.00'']"
    by code_simp
  have fl: "py_float (remove_commas ''10.00'') = Some 10"
    by code_simp
  have jn: "join '' '' [''A Refund'', ''B''] = ''A Refund B''"
    by simp
  have kw1: "str_in ''Refund'' ''A Refund B''"
    by code_simp
  have kw2: "\<not> (str_in ''Deposit'' ''A B'' \<or> str_in ''Refund'' ''A B'')"
    by code_simp
  have sf: "strftime_Ymd (2024, 2, 1) = ''2024-02-01''"
    by code_simp
  note inst1 = two_tokens_and_credit_marker [of ?l ?dm "(2024, 2, 1)" ?rest
      "[''A Refund'', ''B'']" "''10.00 CR 90.00''" "[''next'']" "''10.00''" "''90.00''" 10
      "''A Refund B''" ?m ?text "(2024, 2, 1)" "2009 / 2" True]
  note inst2 = two_tokens_and_credit_marker [of ?l ?dm "(2024, 2, 1)" ?rest
      "[''A Refund'', ''B'']" "''10.00 CR 90.00''" "[''next'']" "''10.00''" "''90.00''" 10
      "''A B''" ?m ?text "(2024, 2, 1)" "2009 / 2" True]
  have st: "wcc_step ?l ?rest = (Inr (Some (''2024-02-01'', ''A Refund B'', 10)), [''next''])"
    using inst1 [THEN conjunct1, unfolded gd jn] rm sd col toks fl kw1
    by (simp only: sf simp_thms if_True)
  have a1: "wcc_amount ''A Refund B'' (findall thousands ''10.00 CR 90.00'') = Inr (Some 10)"
    using inst1 [THEN conjunct2, THEN conjunct1] toks fl kw1 by simp
  have a2: "wcc_amount ''A B'' (findall thousands ''10.00 CR 90.00'') = Inr (Some (- 10))"
    using inst2 [THEN conjunct2, THEN conjunct1] toks fl kw2 by simp
  have fi: "finditer anz_pattern ?text = [?m]"
    by code_simp
  then have mem: "?m \<in> set (finditer anz_pattern ?text)"
    by simp
  have g: "group_str ?m 3 = ''01/02/2024''" "group_str ?m 6 = ''1,004.50''"
    "group_str ?m 5 = ''REFUND SHOP''" "truthy (group ?m 7) = Some ''CR''"
    by (simp_all add: group_str_def group_def truthy_def)
  have dt: "strptime_dmY ''01/02/2024'' = Some (2024, 2, 1)"
    by code_simp
  have fw: "py_float (remove_commas ''1,004.50'') = Some (2009 / 2)"
    by code_simp
  have sdd: "strip ''REFUND SHOP'' = ''REFUND SHOP''"
    by code_simp
  have row: "anz_row ?m = Inr (Some (''2024-02-01'', ''REFUND SHOP'', 2009 / 2))"
    using inst1 [THEN conjunct2, THEN conjunct2, THEN conjunct1, unfolded g] mem dt fw
    by (simp only: sf sdd option.case simp_thms)
  have col': "wcc_collect [strip ''A Refund''] [''B'', ''10.00 CR 90.00'', ''next'']
     = ([''A Refund'', ''B''], ''10.00 CR 90.00'', [''next''])"
    by (rule col)
  show ?thesis
    by (intro conjI) (rule rm, rule sd, rule col', rule toks, rule fl, rule st, rule a1, rule a2,
        rule mem, rule dt, rule fw, rule row)
qed

section \<open>Three tokens\<close>

lemma anz_row_groups:
  assumes "group m 3 = group m' 3" "group m 5 = group m' 5" "group m 6 = group m' 6"
    "group m 7 = group m' 7"
  shows "anz_row m = anz_row m'"
proof -
  have g: "group_str m 3 = group_str m' 3" "group_str m 5 = group_str m' 5"
    "group_str m 6 = group_str m' 6"
    by (simp_all add: group_str_def assms)
  show ?thesis
    unfolding anz_row_def by (simp only: g assms(4))
qed

text \<open>
  An amounts line of the credit card statement with the three tokens \<open>0.00\<close>, \<open>50.00\<close>
  and \<open>150.00\<close> under the description \<open>Deposit\<close>: the first token is not empty, so it is
  the debit and the amount is its negated value, which is zero and not negative; the
  credit of 50.00 is not the amount.
\<close>

theorem three_token_sign_fails:
  "findall thousands ''0.00 50.00 150.00'' = [''0.00'', ''50.00'', ''150.00''] \<and>
   wcc_parse (\<lambda>k. ''id'') [''01/02/24 Deposit'', ''0.00 50.00 150.00'']
     = Inr [\<lparr>tid = ''id'', date = ''2024-02-01'', description = ''Deposit'', amount = 0\<rparr>] \<and>
   \<not> (0 :: amount) < 0 \<and> (0 :: amount) \<noteq> 50"
proof -
  have a: "findall thousands ''0.00 50.00 150.00'' = [''0.00'', ''50.00'', ''150.00'']"
    by code_simp
  have b: "wcc_parse (\<lambda>k. ''id'') [''01/02/24 Deposit'', ''0.00 50.00 150.00'']
     = Inr [\<lparr>tid = ''id'', date = ''2024-02-01'', description = ''Deposit'', amount = 0\<rparr>]"
    by code_simp
  have c: "\<not> (0 :: amount) < 0" and d: "(0 :: amount) \<noteq> 50"
    by simp_all
  show ?thesis
    by (intro conjI) (rule a, rule b, rule c, rule d)
qed

text \<open>
  Claim C6, as amended. In the Westpac credit card parser, a dated line whose amounts line
  holds exactly three amount tokens gives a transaction whose amount is the negated value
  of the first token, the debit: the value of a token is never negative, so the amount is
  at most zero, and it is zero when the first token is \<open>0.00\<close>. A token found by the
  pattern is never empty, so with three tokens the second, the credit, is never the
  amount; the second and the third token, the balance, have no part in the transaction,
  which holds the date, the joined description and the amount only. In the ANZ parser the
  balance group has no part in the row, and the line
  \<open>01/02/2024 01/02/2024 1234 COFFEE SHOP 4.50 120.00\<close> gives the date 2024-02-01, the
  description \<open>COFFEE SHOP\<close> and the amount -4.50.
\<close>

theorem three_tokens_positional:
  "(re_match wcc_date_pattern (strip l) = Some dm \<and>
    strptime_dmy (group_str dm 1) = Some dt0 \<and>
    wcc_collect [strip (group_str dm 2)] rest = (parts, amounts_line, rest') \<and>
    findall thousands amounts_line = [t1, t2, t3] \<and> py_float (remove_commas t1) = Some v \<longrightarrow>
      0 \<le> v \<and> - v \<le> 0 \<and>
      wcc_step l rest = (Inr (Some (strftime_Ymd dt0, join '' '' parts, - v)), rest')) \<and>
   wcc_amount full_description [t1, t2, t3] =
     (if t1 \<noteq> [] then
        (case py_float (remove_commas t1) of
           None \<Rightarrow> Inl ValueError | Some v \<Rightarrow> Inr (Some (- v)))
      else if t2 \<noteq> [] then
        (case py_float (remove_commas t2) of
           None \<Rightarrow> Inl ValueError | Some v \<Rightarrow> Inr (Some v))
      else Inr None) \<and>
   (t1 \<noteq> [] \<longrightarrow>
      wcc_amount full_description [t1, t2, t3] = wcc_amount full_description' [t1, t2', t3']) \<and>
   (findall thousands amounts_line = [t1, t2, t3] \<longrightarrow> t1 \<noteq> [] \<and> t2 \<noteq> [] \<and> t3 \<noteq> []) \<and>
   (findall thousands amounts_line = [t1, t2, t3] \<and> py_float (remove_commas t1) = Some v \<longrightarrow>
      0 \<le> v \<and> wcc_amount full_description (findall thousands amounts_line) = Inr (Some (- v))) \<and>
   (group m 3 = group m' 3 \<and> group m 5 = group m' 5 \<and> group m 6 = group m' 6 \<and>
    group m 7 = group m' 7 \<longrightarrow> anz_row m = anz_row m') \<and>
   anz_parse uuid ''01/02/2024 01/02/2024 1234 COFFEE SHOP 4.50 120.00''
     = Inr [\<lparr>tid = uuid 0, date = ''2024-02-01'', description = ''COFFEE SHOP'',
             amount = - (9 / 2)\<rparr>]"
proof -
  have 2: "t1 \<noteq> [] \<longrightarrow>
      wcc_amount full_description [t1, t2, t3] = wcc_amount full_description' [t1, t2', t3']"
    by (simp add: wcc_amount_three)
  have 3: "findall thousands amounts_line = [t1, t2, t3] \<and> py_float (remove_commas t1) = Some v \<longrightarrow>
      0 \<le> v \<and> wcc_amount full_description (findall thousands amounts_line) = Inr (Some (- v))"
    for full_description
  proof
    assume h: "findall thousands amounts_line = [t1, t2, t3] \<and> py_float (remove_commas t1) = Some v"
    then have "t1 \<in> set (findall thousands amounts_line)" by simp
    from thousands_token_nonneg [OF this] h have v: "0 \<le> v" by blast
    from h have ne: "t1 \<noteq> []" by (blast dest: py_float_nonempty)
    from h ne v show "0 \<le> v \<and>
        wcc_amount full_description (findall thousands amounts_line) = Inr (Some (- v))"
      by (simp add: wcc_amount_three)
  qed
  have 1: "re_match wcc_date_pattern (strip l) = Some dm \<and>
    strptime_dmy (group_str dm 1) = Some dt0 \<and>
    wcc_collect [strip (group_str dm 2)] rest = (parts, amounts_line, rest') \<and>
    findall thousands amounts_line = [t1, t2, t3] \<and> py_float (remove_commas t1) = Some v \<longrightarrow>
      0 \<le> v \<and> - v \<le> 0 \<and>
      wcc_step l rest = (Inr (Some (strftime_Ymd dt0, join '' '' parts, - v)), rest')"
  proof
    assume h: "re_match wcc_date_pattern (strip l) = Some dm \<and>
      strptime_dmy (group_str dm 1) = Some dt0 \<and>
      wcc_collect [strip (group_str dm 2)] rest = (parts, amounts_line, rest') \<and>
      findall thousands amounts_line = [t1, t2, t3] \<and> py_float (remove_commas t1) = Some v"
    then have a: "0 \<le> v \<and> wcc_amount (join '' '' parts) (findall thousands amounts_line)
        = Inr (Some (- v))"
      using 3 [of "join '' '' parts"] by blast
    from h have "wcc_step l rest
           = (case wcc_amount (join '' '' parts) (findall thousands amounts_line) of
                Inl e \<Rightarrow> (Inl e, rest')
              | Inr None \<Rightarrow> (Inr None, rest')
              | Inr (Some a) \<Rightarrow> (Inr (Some (strftime_Ymd dt0, join '' '' parts, a)), rest'))"
      by (blast intro: wcc_step_row)
    with a show "0 \<le> v \<and> - v \<le> 0 \<and>
      wcc_step l rest = (Inr (Some (strftime_Ymd dt0, join '' '' parts, - v)), rest')"
      by simp
  qed
  have ne: "findall thousands amounts_line = [t1, t2, t3] \<longrightarrow> t1 \<noteq> [] \<and> t2 \<noteq> [] \<and> t3 \<noteq> []"
  proof
    assume h: "findall thousands amounts_line = [t1, t2, t3]"
    have "t \<noteq> []" if "t \<in> set (findall thousands amounts_line)" for t
      using that by (rule thousands_token_nonempty)
    with h show "t1 \<noteq> [] \<and> t2 \<noteq> [] \<and> t3 \<noteq> []" by simp
  qed
  have 4: "group m 3 = group m' 3 \<and> group m 5 = group m' 5 \<and> group m 6 = group m' 6 \<and>
    group m 7 = group m' 7 \<longrightarrow> anz_row m = anz_row m'"
    by (blast intro: anz_row_groups)
  have 5: "anz_parse uuid ''01/02/2024 01/02/2024 1234 COFFEE SHOP 4.50 120.00''
     = Inr [\<lparr>tid = uuid 0, date = ''2024-02-01'', description = ''COFFEE SHOP'',
             amount = - (9 / 2)\<rparr>]"
    by code_simp
  show ?thesis
    by (intro conjI) (rule 1, rule wcc_amount_three, rule 2, rule ne, rule 3, rule 4, rule 5)
qed

theorem three_tokens_positional_witness:
  "re_match wcc_date_pattern (strip ''01/02/24 A Refund'')
     = Some \<lparr>m_start = 0, m_end = 17, m_text = ''01/02/24 A Refund'',
             m_caps = [(2, ''A Refund''), (1, ''01/02/24'')]\<rparr> \<and>
   strptime_dmy ''01/02/24'' = Some (2024, 2, 1) \<and>
   wcc_collect [strip ''A Refund''] [''B'', ''1.00 2.00 3.00'', ''next'']
     = ([''A Refund'', ''B''], ''1.00 2.00 3.00'', [''next'']) \<and>
   findall thousands ''1.00 2.00 3.00'' = [''1.00'', ''2.00'', ''3.00''] \<and>
   py_float (remove_commas ''1.00'') = Some 1 \<and>
   wcc_step ''01/02/24 A Refund'' [''B'', ''1.00 2.00 3.00'', ''next'']
     = (Inr (Some (''2024-02-01'', ''A Refund B'', - 1)), [''next'']) \<and>
   wcc_amount ''A'' (findall thousands ''1.00 2.00 3.00'') = Inr (Some (- 1)) \<and>
   ''1.00'' \<noteq> [] \<and>
   wcc_amount ''A'' [''1.00'', ''2.00'', ''3.00''] = wcc_amount ''Refund'' [''1.00'', ''7.00'', ''8.00''] \<and>
   anz_row \<lparr>m_start = 0, m_end = 50,
             m_text = ''01/02/2024 01/02/2024 1234 COFFEE SHOP 4.50 120.00'',
             m_caps = [(8, ''120.00''), (6, ''4.50''), (5, ''COFFEE SHOP''),
                       (3, ''01/02/2024'')]\<rparr>
     = anz_row \<lparr>m_start = 0, m_end = 50,
             m_text = ''01/02/2024 01/02/2024 1234 COFFEE SHOP 4.50 999.99'',
             m_caps = [(8, ''999.99''), (6, ''4.50''), (5, ''COFFEE SHOP''),
                       (3, ''01/02/2024'')]\<rparr>"
proof -
  let ?m = "\<lparr>m_start = 0, m_end = 50,
             m_text = ''01/02/2024 01/02/2024 1234 COFFEE SHOP 4.50 120.00'',
             m_caps = [(8, ''120.00''), (6, ''4.50''), (5, ''COFFEE SHOP''),
                       (3, ''01/02/2024'')]\<rparr>"
  let ?m' = "\<lparr>m_start = 0, m_end = 50,
             m_text = ''01/02/2024 01/02/2024 1234 COFFEE SHOP 4.50 999.99'',
             m_caps = [(8, ''999.99''), (6, ''4.50''), (5, ''COFFEE SHOP''),
                       (3, ''01/02/2024'')]\<rparr>"
  let ?l = "''01/02/24 A Refund''"
  let ?dm = "\<lparr>m_start = 0, m_end = 17, m_text = ''01/02/24 A Refund'',
             m_caps = [(2, ''A Refund''), (1, ''01/02/24'')]\<rparr>"
  let ?rest = "[''B'', ''1.00 2.00 3.00'', ''next'']"
  have rm: "re_match wcc_date_pattern (strip ?l) = Some ?dm"
    by code_simp
  have gd: "group_str ?dm 1 = ''01/02/24''" "group_str ?dm 2 = ''A Refund''"
    by (simp_all add: group_str_def group_def)
  have sd: "strptime_dmy ''01/02/24'' = Some (2024, 2, 1)"
    by code_simp
  have col: "wcc_collect [strip ''A Refund''] [''B'', ''1.00 2.00 3.00'', ''next'']
     = ([''A Refund'', ''B''], ''1.00 2.00 3.00'', [''next''])"
    by code_simp
  have jn: "join '' '' [''A Refund'', ''B''] = ''A Refund B''"
    by simp
  have sf: "strftime_Ymd (2024, 2, 1) = ''2024-02-01''"
    by code_simp
  have toks: "findall thousands ''1.00 2.00 3.00'' = [''1.00'', ''2.00'', ''3.00'']"
    by code_simp
  have fl: "py_float (remove_commas ''1.00'') = Some 1"
    by code_simp
  have ne: "''1.00'' \<noteq> []"
    by simp
  have g: "group ?m 3 = group ?m' 3 \<and> group ?m 5 = group ?m' 5 \<and> group ?m 6 = group ?m' 6 \<and>
    group ?m 7 = group ?m' 7"
    by (simp add: group_def)
  note inst = three_tokens_positional [of ?l ?dm "(2024, 2, 1)" ?rest "[''A Refund'', ''B'']"
      "''1.00 2.00 3.00''" "[''next'']" "''1.00''" "''2.00''" "''3.00''" 1 "''A''" "''Refund''"
      "''7.00''" "''8.00''" ?m ?m' "\<lambda>k. ''id''"]
  have st: "wcc_step ?l ?rest = (Inr (Some (''2024-02-01'', ''A Refund B'', - 1)), [''next''])"
    using inst [THEN conjunct1, unfolded gd jn] rm sd col toks fl
    by (simp only: sf simp_thms)
  have a: "wcc_amount ''A'' (findall thousands ''1.00 2.00 3.00'') = Inr (Some (- 1))"
    using inst toks fl by simp
  have b: "wcc_amount ''A'' [''1.00'', ''2.00'', ''3.00''] = wcc_amount ''Refund'' [''1.00'', ''7.00'', ''8.00'']"
    using inst ne by blast
  have c: "anz_row ?m = anz_row ?m'"
    using inst g by blast
  show ?thesis
    by (intro conjI) (rule rm, rule sd, rule col, rule toks, rule fl, rule st, rule a, rule ne,
        rule b, rule c)
qed

section \<open>Description cleanup\<close>






end
